theory Spec2Isabelle
  imports Main
begin

unbundle bit_operations_syntax

section \<open>ediff: comparing the output of two shell commands without temporary files\<close>

text \<open>
  A shallow embedding of \<^verbatim>\<open>ediff.c\<close>. The program is a sequence of C library and
  system calls; each call the source makes is a HOL function on an explicit state, and
  every \<^verbatim>\<open>err(1, ...)\<close>, \<^verbatim>\<open>assert\<close> and \<^verbatim>\<open>exit\<close> of the source is a branch of
  the model. The platform is the one the source is written for (glibc on LP64 Linux:
  \<^verbatim>\<open>secure_getenv\<close>, \<^verbatim>\<open>F_DUPFD_CLOEXEC\<close>, \<^verbatim>\<open>/proc/self/fd\<close>).
\<close>

subsection \<open>Errors\<close>

text \<open>
  \<^item> \<open>Fatal l\<close>: \<^verbatim>\<open>err(1, l)\<close>, a diagnostic that starts with the label \<open>l\<close> on standard
    error and exit status 1;
  \<^item> \<open>Usage t\<close>: the text \<open>t\<close> on standard error and \<^verbatim>\<open>exit(2)\<close>;
  \<^item> \<open>Assertion\<close>: a failed \<^verbatim>\<open>assert\<close>, that is \<^verbatim>\<open>abort()\<close>;
  \<^item> \<open>Out_of_bounds\<close>: a read or write outside an allocated array, which C leaves
    undefined.
\<close>

datatype error = Fatal string | Usage string | Assertion | Out_of_bounds

subsection \<open>The C heap: \<^verbatim>\<open>calloc\<close>, \<^verbatim>\<open>realloc\<close>, \<^verbatim>\<open>strdup\<close>\<close>

text \<open>
  A pointer stored in the argument array is \<open>Null\<close> or the address of a string block.
  String blocks are never freed by the program, so the heap is the list of the blocks
  allocated so far and an address is an index into it: a new block gets the address
  \<open>length (blocks h)\<close>, which no earlier pointer can hold. A block holds the value of a
  C string (its characters up to the terminating NUL).

  Whether an allocation request succeeds is not decided by the program: \<open>grant h n\<close> says
  whether the \<open>n\<close>-th request of the process succeeds, and \<open>reqs h\<close> counts the requests
  made so far. No allocator returns an object of more than \<^verbatim>\<open>PTRDIFF_MAX\<close> bytes, and
  glibc's \<^verbatim>\<open>realloc(p, 0)\<close> returns \<^verbatim>\<open>NULL\<close>. The area that \<^verbatim>\<open>realloc\<close> adds is not
  initialised: slot \<open>i\<close> of it holds \<open>junk h i\<close>, whatever that is.
\<close>

datatype cptr = Null | Ptr nat

record heap =
  blocks :: "string list"
  reqs :: nat
  grant :: "nat \<Rightarrow> bool"
  junk :: "nat \<Rightarrow> cptr"

definition SIZE_MOD :: nat where
  "SIZE_MOD = 2 ^ 64"

definition PTRDIFF_MAX :: nat where
  "PTRDIFF_MAX = 2 ^ 63 - 1"

definition PTR_SIZE :: nat where
  "PTR_SIZE = 8"

definition alloc :: "heap \<Rightarrow> nat \<Rightarrow> bool \<times> heap" where
  "alloc h n = (0 < n \<and> n \<le> PTRDIFF_MAX \<and> grant h (reqs h), h\<lparr>reqs := Suc (reqs h)\<rparr>)"

text \<open>\<^verbatim>\<open>calloc(n, sizeof(char *))\<close>: \<open>n\<close> pointers, all \<^verbatim>\<open>NULL\<close>; fails when the product
  does not fit.\<close>

definition calloc_ptrs :: "heap \<Rightarrow> nat \<Rightarrow> (cptr list \<times> heap) option" where
  "calloc_ptrs h n =
     (case alloc h (n * PTR_SIZE) of
        (True, h') \<Rightarrow> Some (replicate n Null, h')
      | (False, h') \<Rightarrow> None)"

text \<open>\<^verbatim>\<open>realloc(v, bytes)\<close> on an array of pointers: the new array has room for
  \<open>bytes div PTR_SIZE\<close> pointers, keeps the old contents up to the smaller of the two
  sizes, and holds junk beyond them.\<close>

definition realloc_ptrs :: "heap \<Rightarrow> cptr list \<Rightarrow> nat \<Rightarrow> (cptr list \<times> heap) option" where
  "realloc_ptrs h v bytes =
     (case alloc h bytes of
        (True, h') \<Rightarrow>
          Some (take (bytes div PTR_SIZE) v @ map (junk h) [length v..<bytes div PTR_SIZE], h')
      | (False, h') \<Rightarrow> None)"

text \<open>\<^verbatim>\<open>strdup(s)\<close>: a new block of \<open>length s + 1\<close> bytes holding a copy of \<open>s\<close>.\<close>

definition strdup :: "heap \<Rightarrow> string \<Rightarrow> (cptr \<times> heap) option" where
  "strdup h s =
     (case alloc h (length s + 1) of
        (True, h') \<Rightarrow> Some (Ptr (length (blocks h')), h'\<lparr>blocks := blocks h' @ [s]\<rparr>)
      | (False, h') \<Rightarrow> None)"

text \<open>What a pointer refers to: the string of its block, if it is the address of one.\<close>

fun deref :: "heap \<Rightarrow> cptr \<Rightarrow> string option" where
  "deref h Null = None"
| "deref h (Ptr p) = (if p < length (blocks h) then Some (blocks h ! p) else None)"

subsection \<open>The argument vector: \<^verbatim>\<open>struct args\<close>, \<^verbatim>\<open>args_init\<close>, \<^verbatim>\<open>args_add\<close>\<close>

text \<open>
  \<^verbatim>\<open>struct args { size_t capacity; size_t argc; char **argv; }\<close>. The field \<open>argv\<close>
  is the array the pointer refers to, with the length it was allocated with; the two
  sizes are \<^verbatim>\<open>size_t\<close>, so their arithmetic is modulo \<open>SIZE_MOD\<close>.
\<close>

record args =
  capacity :: nat
  argc :: nat
  argv :: "cptr list"

definition args_init :: "heap \<Rightarrow> nat \<Rightarrow> error + args \<times> heap" where
  "args_init h starting_capacity =
     (if \<not> 0 < starting_capacity then Inl Assertion
      else case calloc_ptrs h starting_capacity of
        None \<Rightarrow> Inl (Fatal ''calloc'')
      | Some (v, h') \<Rightarrow> Inr (\<lparr>capacity = starting_capacity, argc = 0, argv = v\<rparr>, h'))"

text \<open>The first half of \<^verbatim>\<open>args_add\<close> (lines 63 to 73): the assertion, and the doubling
  of the array when the new element and the terminator would not both fit.\<close>

definition args_grow :: "heap \<Rightarrow> args \<Rightarrow> error + args \<times> heap" where
  "args_grow h a =
     (if \<not> argc a < capacity a then Inl Assertion
      else if (argc a + 1) mod SIZE_MOD = capacity a then
        (let cap = (capacity a * 2) mod SIZE_MOD in
         case realloc_ptrs h (argv a) ((cap * PTR_SIZE) mod SIZE_MOD) of
           None \<Rightarrow> Inl (Fatal ''realloc'')
         | Some (v, h') \<Rightarrow> Inr (a\<lparr>capacity := cap, argv := v\<rparr>, h'))
      else Inr (a, h))"

text \<open>The second half (lines 75 to 81): the copy of the string, and the two stores, each
  of which must fall inside the array.\<close>

definition args_store :: "heap \<Rightarrow> args \<Rightarrow> string \<Rightarrow> error + args \<times> heap" where
  "args_store h a s =
     (case strdup h s of
        None \<Rightarrow> Inl (Fatal ''malloc'')
      | Some (sdup, h') \<Rightarrow>
          (let n = (argc a + 1) mod SIZE_MOD in
           if n = 0 \<or> \<not> n < length (argv a) then Inl Out_of_bounds
           else Inr (a\<lparr>argc := n, argv := (argv a)[n - 1 := sdup, n := Null]\<rparr>, h')))"

definition args_add :: "heap \<Rightarrow> args \<Rightarrow> string \<Rightarrow> error + args \<times> heap" where
  "args_add h a s =
     (case args_grow h a of
        Inl e \<Rightarrow> Inl e
      | Inr (a', h') \<Rightarrow> args_store h' a' s)"

text \<open>A sequence of pushes, stopping at the first one that fails.\<close>

fun args_add_all :: "heap \<Rightarrow> args \<Rightarrow> string list \<Rightarrow> error + args \<times> heap" where
  "args_add_all h a [] = Inr (a, h)"
| "args_add_all h a (s # ss) =
     (case args_add h a s of
        Inl e \<Rightarrow> Inl e
      | Inr (a', h') \<Rightarrow> args_add_all h' a' ss)"

text \<open>What \<^verbatim>\<open>execvp\<close> reads from an argument array: the strings up to the first
  \<^verbatim>\<open>NULL\<close>. Running off the end of the array, or following a pointer that is not the
  address of a string, is undefined (\<open>None\<close>).\<close>

fun c_argv :: "heap \<Rightarrow> cptr list \<Rightarrow> string list option" where
  "c_argv h [] = None"
| "c_argv h (Null # v) = Some []"
| "c_argv h (Ptr p # v) =
     (case (deref h (Ptr p), c_argv h v) of
        (Some s, Some ss) \<Rightarrow> Some (s # ss)
      | _ \<Rightarrow> None)"

subsection \<open>The kernel: descriptors and pipes\<close>

text \<open>
  A descriptor refers to the read end or the write end of a pipe, or to some other open
  file (a terminal, a regular file, a socket), and carries the close-on-exec flag. The
  descriptor table of a process is a list indexed by descriptor number; a number beyond
  the end of the list is a closed descriptor. \<open>nofile\<close> is the limit on descriptor
  numbers (\<^verbatim>\<open>RLIMIT_NOFILE\<close>): new descriptors are numbered below it, while the table
  inherited from the caller may hold any descriptors at all.

  The kernel keeps, for every pipe, the bytes written and not yet read, and how many
  descriptors of all processes refer to each end. A pipe is named by its position in
  \<open>pipes\<close>; a new pipe is appended.
\<close>

datatype endpoint = PipeR nat | PipeW nat | Other nat

record fdesc =
  target :: endpoint
  cloexec :: bool

record pipe =
  buf :: "nat list"
  readers :: nat
  writers :: nat

text \<open>
  What the process sees of the system. The last four fields are the environment's
  answers, which the program cannot influence: whether the \<open>n\<close>-th \<^verbatim>\<open>fork\<close> succeeds,
  whether a program can be executed, and whether a program, once executed, ever
  terminates.
\<close>

record sys =
  fds :: "fdesc option list"
  nofile :: nat
  pipes :: "pipe list"
  forks :: nat
  fork_ok :: "nat \<Rightarrow> bool"
  can_exec :: "string \<Rightarrow> bool"
  halts :: "string \<Rightarrow> bool"

definition fd_get :: "fdesc option list \<Rightarrow> nat \<Rightarrow> fdesc option" where
  "fd_get t n = (if n < length t then t ! n else None)"

definition fd_put :: "fdesc option list \<Rightarrow> nat \<Rightarrow> fdesc option \<Rightarrow> fdesc option list" where
  "fd_put t n e = (t @ replicate (Suc n - length t) None)[n := e]"

text \<open>The lowest closed descriptor number from \<open>ge\<close> up to the limit.\<close>

definition lowest_free :: "fdesc option list \<Rightarrow> nat \<Rightarrow> nat \<Rightarrow> nat option" where
  "lowest_free t lim ge = find (\<lambda>n. fd_get t n = None) [ge..<lim]"

fun retain :: "endpoint \<Rightarrow> pipe list \<Rightarrow> pipe list" where
  "retain (PipeR k) ps =
     (if k < length ps then ps[k := (ps ! k)\<lparr>readers := readers (ps ! k) + 1\<rparr>] else ps)"
| "retain (PipeW k) ps =
     (if k < length ps then ps[k := (ps ! k)\<lparr>writers := writers (ps ! k) + 1\<rparr>] else ps)"
| "retain (Other n) ps = ps"

fun release :: "endpoint \<Rightarrow> pipe list \<Rightarrow> pipe list" where
  "release (PipeR k) ps =
     (if k < length ps then ps[k := (ps ! k)\<lparr>readers := readers (ps ! k) - 1\<rparr>] else ps)"
| "release (PipeW k) ps =
     (if k < length ps then ps[k := (ps ! k)\<lparr>writers := writers (ps ! k) - 1\<rparr>] else ps)"
| "release (Other n) ps = ps"

text \<open>\<^verbatim>\<open>close(n)\<close>; its result is ignored wherever the source calls it.\<close>

definition sys_close :: "sys \<Rightarrow> nat \<Rightarrow> sys" where
  "sys_close s n =
     (case fd_get (fds s) n of
        None \<Rightarrow> s
      | Some d \<Rightarrow> s\<lparr>fds := fd_put (fds s) n None, pipes := release (target d) (pipes s)\<rparr>)"

text \<open>\<^verbatim>\<open>pipe(p)\<close>: a new pipe on the two lowest closed descriptors, the read end on the
  lower one, neither close-on-exec; fails when the table has no two free numbers.\<close>

definition sys_pipe :: "sys \<Rightarrow> (nat \<times> nat \<times> sys) option" where
  "sys_pipe s =
     (case lowest_free (fds s) (nofile s) 0 of
        None \<Rightarrow> None
      | Some r \<Rightarrow>
          (case lowest_free (fds s) (nofile s) (Suc r) of
             None \<Rightarrow> None
           | Some w \<Rightarrow>
               Some (r, w,
                 s\<lparr>fds := fd_put (fd_put (fds s) r
                            (Some \<lparr>target = PipeR (length (pipes s)), cloexec = False\<rparr>)) w
                            (Some \<lparr>target = PipeW (length (pipes s)), cloexec = False\<rparr>),
                   pipes := pipes s @ [\<lparr>buf = [], readers = 1, writers = 1\<rparr>]\<rparr>)))"

text \<open>\<^verbatim>\<open>dup2(old, new)\<close>, where \<open>old\<close> must be open. When the two are equal nothing
  happens, whatever the limit is. Otherwise \<open>new\<close> must be below the limit; it is closed
  first if it is open, and then refers to what \<open>old\<close> refers to, with close-on-exec off.\<close>

definition sys_dup2 :: "sys \<Rightarrow> nat \<Rightarrow> nat \<Rightarrow> sys option" where
  "sys_dup2 s old new =
     (case fd_get (fds s) old of
        None \<Rightarrow> None
      | Some d \<Rightarrow>
          if old = new then Some s
          else if nofile s \<le> new then None
          else (let s' = sys_close s new in
                Some (s'\<lparr>fds := fd_put (fds s') new (Some (d\<lparr>cloexec := False\<rparr>)),
                         pipes := retain (target d) (pipes s')\<rparr>)))"

text \<open>\<^verbatim>\<open>fcntl(fd, F_DUPFD_CLOEXEC, ge)\<close>: the lowest closed descriptor from \<open>ge\<close> up
  refers to what \<open>fd\<close> refers to, with close-on-exec on.\<close>

definition fcntl_dupfd_cloexec :: "sys \<Rightarrow> nat \<Rightarrow> nat \<Rightarrow> (nat \<times> sys) option" where
  "fcntl_dupfd_cloexec s fd ge =
     (case fd_get (fds s) fd of
        None \<Rightarrow> None
      | Some d \<Rightarrow>
          (case lowest_free (fds s) (nofile s) ge of
             None \<Rightarrow> None
           | Some n \<Rightarrow>
               Some (n, s\<lparr>fds := fd_put (fds s) n (Some (d\<lparr>cloexec := True\<rparr>)),
                          pipes := retain (target d) (pipes s)\<rparr>)))"

definition FD_CLOEXEC :: int where
  "FD_CLOEXEC = 1"

definition fcntl_getfd :: "sys \<Rightarrow> nat \<Rightarrow> int option" where
  "fcntl_getfd s fd =
     (case fd_get (fds s) fd of
        None \<Rightarrow> None
      | Some d \<Rightarrow> Some (if cloexec d then FD_CLOEXEC else 0))"

definition fcntl_setfd :: "sys \<Rightarrow> nat \<Rightarrow> int \<Rightarrow> sys option" where
  "fcntl_setfd s fd flags =
     (case fd_get (fds s) fd of
        None \<Rightarrow> None
      | Some d \<Rightarrow> Some (s\<lparr>fds := fd_put (fds s) fd (Some (d\<lparr>cloexec := (flags AND FD_CLOEXEC \<noteq> 0)\<rparr>))\<rparr>))"

text \<open>\<^verbatim>\<open>fork()\<close>: the child starts with a copy of the table, so every descriptor in it is
  one more reference to its pipe end. The result is the state both processes continue
  from.\<close>

definition retain_all :: "fdesc option list \<Rightarrow> pipe list \<Rightarrow> pipe list" where
  "retain_all t ps = fold (\<lambda>e. case e of None \<Rightarrow> id | Some d \<Rightarrow> retain (target d)) t ps"

definition sys_fork :: "sys \<Rightarrow> sys option" where
  "sys_fork s =
     (if fork_ok s (forks s)
      then Some (s\<lparr>forks := Suc (forks s), pipes := retain_all (fds s) (pipes s)\<rparr>)
      else None)"

text \<open>A successful \<^verbatim>\<open>exec\<close> closes the close-on-exec descriptors and keeps the others;
  the end of a process closes them all.\<close>

definition release_those :: "(fdesc \<Rightarrow> bool) \<Rightarrow> fdesc option list \<Rightarrow> pipe list \<Rightarrow> pipe list" where
  "release_those P t ps =
     fold (\<lambda>e. case e of None \<Rightarrow> id | Some d \<Rightarrow> if P d then release (target d) else id) t ps"

definition sys_exec :: "sys \<Rightarrow> string \<Rightarrow> sys option" where
  "sys_exec s path =
     (if can_exec s path
      then Some (s\<lparr>fds := map (\<lambda>e. case e of None \<Rightarrow> None
                                   | Some d \<Rightarrow> if cloexec d then None else Some d) (fds s),
                   pipes := release_those cloexec (fds s) (pipes s)\<rparr>)
      else None)"

definition sys_exit :: "sys \<Rightarrow> sys" where
  "sys_exit s = s\<lparr>fds := [], pipes := release_those (\<lambda>d. True) (fds s) (pipes s)\<rparr>"

text \<open>\<^verbatim>\<open>read(fd, ...)\<close> on a pipe: the buffered bytes if there are any, end of stream
  when there are none and no descriptor refers to the write end, and otherwise a wait.
  The program never reads; this is what the programs it starts will see.\<close>

datatype read_result = Data "nat list" | Eof | Waits | Bad_descriptor | Unknown

definition sys_read :: "sys \<Rightarrow> nat \<Rightarrow> read_result" where
  "sys_read s fd =
     (case fd_get (fds s) fd of
        None \<Rightarrow> Bad_descriptor
      | Some d \<Rightarrow>
          (case target d of
             PipeR k \<Rightarrow>
               if k < length (pipes s)
               then (if buf (pipes s ! k) \<noteq> [] then Data (buf (pipes s ! k))
                     else if writers (pipes s ! k) = 0 then Eof else Waits)
               else Bad_descriptor
           | PipeW k \<Rightarrow> Bad_descriptor
           | Other n \<Rightarrow> Unknown))"

subsection \<open>How a process ends\<close>

text \<open>
  \<open>Exited c t\<close>: exit status \<open>c\<close> after writing \<open>t\<close> to standard error (for
  \<^verbatim>\<open>err\<close>, \<open>t\<close> is the label the diagnostic starts with); \<open>Aborted\<close>: killed by a failed
  assertion; \<open>Undefined\<close>: undefined behaviour; \<open>Execed p av\<close>: the image was replaced
  by program \<open>p\<close> with argument vector \<open>av\<close>; \<open>Blocked\<close>: waiting for ever. Beside the
  outcome stands the state of the system at that moment.
\<close>

datatype outcome = Exited nat string | Aborted | Undefined | Execed string "string list" | Blocked

fun die :: "error \<Rightarrow> outcome" where
  "die (Fatal l) = Exited 1 l"
| "die (Usage t) = Exited 2 t"
| "die Assertion = Aborted"
| "die Out_of_bounds = Undefined"

definition fail :: "error \<Rightarrow> sys \<Rightarrow> outcome \<times> sys" where
  "fail e s = (die e, sys_exit s)"

subsection \<open>The descriptor helpers of the source\<close>

definition closed_reader :: "sys \<Rightarrow> nat \<Rightarrow> error \<times> sys + sys" where
  "closed_reader s fd =
     (case sys_pipe s of
        None \<Rightarrow> Inl (Fatal ''pipe'', s)
      | Some (p0, p1, s1) \<Rightarrow>
          (let s2 = sys_close s1 p1 in
           if fd \<noteq> p0 then
             (case sys_dup2 s2 p0 fd of
                None \<Rightarrow> Inl (Fatal ''dup2'', s2)
              | Some s3 \<Rightarrow> Inr (sys_close s3 p0))
           else Inr s2))"

definition clear_cloexec :: "sys \<Rightarrow> nat \<Rightarrow> error \<times> sys + sys" where
  "clear_cloexec s fd =
     (case fcntl_getfd s fd of
        None \<Rightarrow> Inl (Fatal ''fcntl F_GETFD'', s)
      | Some flags \<Rightarrow>
          (case fcntl_setfd s fd (flags AND NOT FD_CLOEXEC) of
             None \<Rightarrow> Inl (Fatal ''fcntl F_SETFD'', s)
           | Some s' \<Rightarrow> Inr s'))"

definition xdup_ge :: "sys \<Rightarrow> nat \<Rightarrow> nat \<Rightarrow> error \<times> sys + nat \<times> sys" where
  "xdup_ge s fd ge =
     (case fcntl_dupfd_cloexec s fd ge of
        None \<Rightarrow> Inl (Fatal ''fcntl F_DUPFD'', s)
      | Some r \<Rightarrow> Inr r)"

subsection \<open>The producer\<close>

definition producer :: "sys \<Rightarrow> string \<Rightarrow> string \<Rightarrow> nat \<Rightarrow> outcome \<times> sys" where
  "producer s shell cmd pout =
     (case sys_dup2 s pout 1 of
        None \<Rightarrow> fail (Fatal ''dup2'') s
      | Some s1 \<Rightarrow>
          (case clear_cloexec s1 1 of
             Inl (e, s') \<Rightarrow> fail e s'
           | Inr s2 \<Rightarrow>
               (case closed_reader s2 0 of
                  Inl (e, s') \<Rightarrow> fail e s'
                | Inr s3 \<Rightarrow>
                    (case sys_exec s3 shell of
                       None \<Rightarrow> fail (Fatal ''exec'') s3
                     | Some s4 \<Rightarrow> (Execed shell [shell, ''-c'', cmd], s4)))))"

subsection \<open>\<^verbatim>\<open>main\<close>\<close>

definition DIFF_MAXFD :: nat where
  "DIFF_MAXFD = 4"

definition DEFAULT_SHELL :: string where
  "DEFAULT_SHELL = ''/bin/sh''"

definition DIFF_CMD :: string where
  "DIFF_CMD = ''diff''"

text \<open>The environment of the process: its variables, and whether it runs in
  secure-execution mode (set-user-ID and the like), where glibc's \<^verbatim>\<open>secure_getenv\<close>
  answers \<^verbatim>\<open>NULL\<close> for every name.\<close>

record environ =
  vars :: "string \<Rightarrow> string option"
  secure :: bool

definition secure_getenv :: "environ \<Rightarrow> string \<Rightarrow> string option" where
  "secure_getenv e name = (if secure e then None else vars e name)"

text \<open>The message of lines 154 to 156. \<^verbatim>\<open>argv[0]\<close> is \<^verbatim>\<open>NULL\<close> when the program is
  started with no arguments at all, which glibc prints as \<^verbatim>\<open>(null)\<close>.\<close>

definition usage_text :: "string list \<Rightarrow> string" where
  "usage_text av =
     ''Usage: '' @ (case av of [] \<Rightarrow> ''(null)'' | a0 # _ \<Rightarrow> a0) @
     '' [diff args] '' @ [CHR 0x27] @ ''shell command 1'' @ [CHR 0x27] @ '' '' @
     [CHR 0x27] @ ''shell command 2'' @ [CHR 0x27] @ [CHR 0x0A]"

text \<open>The loop of lines 163 and 164, from index \<open>i\<close> on.\<close>

function main_forward :: "heap \<Rightarrow> args \<Rightarrow> string list \<Rightarrow> nat \<Rightarrow> error + args \<times> heap" where
  "main_forward h a av i =
     (if i < length av - 2 then
        (case args_add h a (av ! i) of
           Inl e \<Rightarrow> Inl e
         | Inr (a', h') \<Rightarrow> main_forward h' a' av (i + 1))
      else Inr (a, h))"
  by pat_completeness auto
termination
  by (relation "measure (\<lambda>(h, a, av, i). length av - i)") auto

declare main_forward.simps [simp del]

text \<open>Lines 150 to 165: the argument vector for the differencing program, or the usage
  error. \<open>length av\<close> is \<^verbatim>\<open>argc\<close>.\<close>

definition main_args :: "heap \<Rightarrow> string list \<Rightarrow> error + args \<times> heap" where
  "main_args h av =
     (case args_init h 2 of
        Inl e \<Rightarrow> Inl e
      | Inr (a, h1) \<Rightarrow>
          (case args_add h1 a DIFF_CMD of
             Inl e \<Rightarrow> Inl e
           | Inr (a1, h2) \<Rightarrow>
               if length av < 3 then Inl (Usage (usage_text av))
               else if length av = 3 then args_add h2 a1 ''-u''
               else main_forward h2 a1 av 1))"

text \<open>Lines 178 to 183, which lines 185 to 190 repeat for the second pipe: a pipe whose
  two ends are moved above \<open>DIFF_MAXFD\<close>.\<close>

definition main_pipe :: "sys \<Rightarrow> error \<times> sys + (nat \<times> nat) \<times> sys" where
  "main_pipe s =
     (case sys_pipe s of
        None \<Rightarrow> Inl (Fatal ''pipe2'', s)
      | Some (p0, p1, s1) \<Rightarrow>
          (case xdup_ge s1 p0 (DIFF_MAXFD + 1) of
             Inl e \<Rightarrow> Inl e
           | Inr (q0, s2) \<Rightarrow>
               (case xdup_ge s2 p1 (DIFF_MAXFD + 1) of
                  Inl e \<Rightarrow> Inl e
                | Inr (q1, s3) \<Rightarrow> Inr ((q0, q1), sys_close (sys_close s3 p0) p1))))"

definition main_pipes :: "sys \<Rightarrow> error \<times> sys + (nat \<times> nat) \<times> (nat \<times> nat) \<times> sys" where
  "main_pipes s =
     (case main_pipe s of
        Inl e \<Rightarrow> Inl e
      | Inr (pa, s1) \<Rightarrow>
          (case main_pipe s1 of
             Inl e \<Rightarrow> Inl e
           | Inr (pb, s2) \<Rightarrow> Inr (pa, pb, s2)))"

text \<open>Lines 212 to 231, the child of the third \<^verbatim>\<open>fork\<close> (built without
  \<^verbatim>\<open>FD_DEBUG\<close>). The results of the two \<^verbatim>\<open>dup2\<close> calls are not looked at. The six
  \<^verbatim>\<open>args_add\<close> calls are one \<open>args_add_all\<close>.\<close>

definition consumer :: "sys \<Rightarrow> heap \<Rightarrow> args \<Rightarrow> string \<Rightarrow> string \<Rightarrow> nat \<Rightarrow> nat \<Rightarrow> outcome \<times> sys" where
  "consumer s h a cmda cmdb pa0 pb0 =
     (let s1 = (case sys_dup2 s pa0 3 of None \<Rightarrow> s | Some s' \<Rightarrow> s');
          s2 = (case sys_dup2 s1 pb0 4 of None \<Rightarrow> s1 | Some s' \<Rightarrow> s')
      in case clear_cloexec s2 3 of
           Inl (e, s') \<Rightarrow> fail e s'
         | Inr s3 \<Rightarrow>
             (case clear_cloexec s3 4 of
                Inl (e, s') \<Rightarrow> fail e s'
              | Inr s4 \<Rightarrow>
                  (case closed_reader s4 0 of
                     Inl (e, s') \<Rightarrow> fail e s'
                   | Inr s5 \<Rightarrow>
                       (case args_add_all h a
                               [''--label'', cmda, ''/proc/self/fd/3'',
                                ''--label'', cmdb, ''/proc/self/fd/4''] of
                          Inl e \<Rightarrow> fail e s5
                        | Inr (a', h') \<Rightarrow>
                            (case c_argv h' (argv a') of
                               None \<Rightarrow> fail Out_of_bounds s5
                             | Some dv \<Rightarrow>
                                 (case sys_exec s5 DIFF_CMD of
                                    None \<Rightarrow> fail (Fatal ''exec'') s5
                                  | Some s6 \<Rightarrow> (Execed DIFF_CMD dv, s6)))))))"

text \<open>\<^verbatim>\<open>waitpid(cdiff, &status, 0)\<close> returns once the consumer has ended: at once if it
  exited by itself, and when the program it executed terminates otherwise. The status
  and the result of the call are not looked at.\<close>

fun sys_waitpid :: "sys \<Rightarrow> outcome \<Rightarrow> bool" where
  "sys_waitpid s (Execed p dv) = halts s p"
| "sys_waitpid s Blocked = False"
| "sys_waitpid s _ = True"

text \<open>
  One run of the program: how the parent ends, and how each child that was started ends
  (\<open>None\<close>: never started). The children run at the same time as the parent; the model
  lets each child run up to its \<^verbatim>\<open>exec\<close> or exit before the parent goes on, which fixes
  the names of the pipes the children create and nothing else, since every process has
  a descriptor table of its own.
\<close>

record run =
  parent :: "outcome \<times> sys"
  child_a :: "(outcome \<times> sys) option"
  child_b :: "(outcome \<times> sys) option"
  child_diff :: "(outcome \<times> sys) option"

definition only_parent :: "outcome \<times> sys \<Rightarrow> run" where
  "only_parent e = \<lparr>parent = e, child_a = None, child_b = None, child_diff = None\<rparr>"

text \<open>Lines 192 to 244.\<close>

definition main_spawn ::
  "sys \<Rightarrow> heap \<Rightarrow> args \<Rightarrow> string \<Rightarrow> string \<Rightarrow> string \<Rightarrow> nat \<times> nat \<Rightarrow> nat \<times> nat \<Rightarrow> run" where
  "main_spawn s h a shell cmda cmdb pa pb =
     (case sys_fork s of
        None \<Rightarrow> only_parent (fail (Fatal ''fork'') s)
      | Some s1 \<Rightarrow>
          (let ea = producer s1 shell cmda (snd pa);
               t1 = s1\<lparr>pipes := pipes (snd ea)\<rparr>
           in case sys_fork t1 of
                None \<Rightarrow> (only_parent (fail (Fatal ''fork'') t1))\<lparr>child_a := Some ea\<rparr>
              | Some s2 \<Rightarrow>
                  (let eb = producer s2 shell cmdb (snd pb);
                       t2 = s2\<lparr>pipes := pipes (snd eb)\<rparr>
                   in case sys_fork t2 of
                        None \<Rightarrow>
                          (only_parent (fail (Fatal ''fork'') t2))
                            \<lparr>child_a := Some ea, child_b := Some eb\<rparr>
                      | Some s3 \<Rightarrow>
                          (let ed = consumer s3 h a cmda cmdb (fst pa) (fst pb);
                               t3 = s3\<lparr>pipes := pipes (snd ed)\<rparr>;
                               s4 = sys_close (sys_close (sys_close (sys_close t3
                                      (fst pa)) (snd pa)) (fst pb)) (snd pb)
                           in \<lparr>parent = (if sys_waitpid s4 (fst ed)
                                          then (Exited 0 [], sys_exit s4)
                                          else (Blocked, s4)),
                               child_a = Some ea, child_b = Some eb,
                               child_diff = Some ed\<rparr>))))"

definition main :: "heap \<Rightarrow> sys \<Rightarrow> environ \<Rightarrow> string list \<Rightarrow> run" where
  "main h s env av =
     (case main_args h av of
        Inl e \<Rightarrow> only_parent (fail e s)
      | Inr (a, h') \<Rightarrow>
          (let cmda = av ! (length av - 2);
               cmdb = av ! (length av - 1);
               shell = (case secure_getenv env ''SHELL'' of
                          None \<Rightarrow> DEFAULT_SHELL
                        | Some p \<Rightarrow> p)
           in case main_pipes s of
                Inl (e, s') \<Rightarrow> only_parent (fail e s')
              | Inr (pa, pb, s1) \<Rightarrow> main_spawn s1 h' a shell cmda cmdb pa pb))"

section \<open>Invariants and example states\<close>

text \<open>What \<open>args_init\<close> establishes and \<open>args_add\<close> keeps: room for one more element and
  the terminator, an array as long as the capacity says and small enough for the sizes
  not to wrap around, and the terminator in place.\<close>

definition args_wf :: "args \<Rightarrow> bool" where
  "args_wf a \<longleftrightarrow>
     argc a < capacity a \<and> length (argv a) = capacity a \<and>
     capacity a * PTR_SIZE \<le> PTRDIFF_MAX \<and> argv a ! argc a = Null"

text \<open>The occupied slots hold the addresses \<open>ps\<close>, all different, of blocks holding the
  strings \<open>ss\<close>.\<close>

definition args_holds :: "heap \<Rightarrow> args \<Rightarrow> nat list \<Rightarrow> string list \<Rightarrow> bool" where
  "args_holds h a ps ss \<longleftrightarrow>
     args_wf a \<and> take (argc a) (argv a) = map Ptr ps \<and> length ps = argc a \<and> distinct ps \<and>
     (\<forall>p\<in>set ps. p < length (blocks h)) \<and> map ((!) (blocks h)) ps = ss"

text \<open>A heap in which every request is granted, and the junk is not \<^verbatim>\<open>NULL\<close>.\<close>

definition heap0 :: heap where
  "heap0 = \<lparr>blocks = [], reqs = 0, grant = (\<lambda>n. True), junk = (\<lambda>i. Ptr i)\<rparr>"

text \<open>A heap in which no request is granted.\<close>

definition heap_oom :: heap where
  "heap_oom = \<lparr>blocks = [], reqs = 0, grant = (\<lambda>n. False), junk = (\<lambda>i. Null)\<rparr>"

text \<open>A pipe from which a read returns end of stream: nothing buffered, and no descriptor
  on the write end.\<close>

definition eof_pipe :: "pipe list \<Rightarrow> nat \<Rightarrow> bool" where
  "eof_pipe ps k \<longleftrightarrow> k < length ps \<and> buf (ps ! k) = [] \<and> writers (ps ! k) = 0"

text \<open>The flags that \<open>main_args\<close> puts after the program name, the six arguments that
  \<open>consumer\<close> adds, and the interpreter that \<open>main\<close> chooses.\<close>

definition diff_flags :: "string list \<Rightarrow> string list" where
  "diff_flags av = (if length av = 3 then [''-u''] else take (length av - 3) (tl av))"

definition six_args :: "string list \<Rightarrow> string list" where
  "six_args av = [''--label'', av ! (length av - 2), ''/proc/self/fd/3'',
                  ''--label'', av ! (length av - 1), ''/proc/self/fd/4'']"

definition shell_of :: "environ \<Rightarrow> string" where
  "shell_of env = (case secure_getenv env ''SHELL'' of None \<Rightarrow> DEFAULT_SHELL | Some p \<Rightarrow> p)"

text \<open>One \<^verbatim>\<open>fork\<close> of a producer in \<open>main_spawn\<close>: the state \<open>s1\<close> the child starts in, how
  the child ends, and the state \<open>t1\<close> the parent goes on with.\<close>

definition spawn_a :: "sys \<Rightarrow> string \<Rightarrow> string \<Rightarrow> nat \<times> nat \<Rightarrow> sys \<Rightarrow> (outcome \<times> sys) \<Rightarrow> sys \<Rightarrow> bool" where
  "spawn_a s shell cmda pa s1 ea t1 \<longleftrightarrow>
     sys_fork s = Some s1 \<and> ea = producer s1 shell cmda (snd pa) \<and> t1 = s1\<lparr>pipes := pipes (snd ea)\<rparr>"

text \<open>
  An example system: a limit of 16 descriptors, and an environment in which every
  \<^verbatim>\<open>fork\<close> succeeds, every program can be executed and every program terminates. In
  \<open>sys0\<close> the process has been started with standard input closed and standard output
  and standard error on a terminal, so the first \<^verbatim>\<open>pipe\<close> will return descriptor 0.
\<close>

definition sys_with :: "fdesc option list \<Rightarrow> pipe list \<Rightarrow> nat \<Rightarrow> sys" where
  "sys_with t ps n = \<lparr>fds = t, nofile = 16, pipes = ps, forks = n,
      fork_ok = (\<lambda>n. True), can_exec = (\<lambda>p. True), halts = (\<lambda>p. True)\<rparr>"

abbreviation rdesc :: "nat \<Rightarrow> bool \<Rightarrow> fdesc option" where
  "rdesc k c \<equiv> Some \<lparr>target = PipeR k, cloexec = c\<rparr>"

abbreviation wdesc :: "nat \<Rightarrow> bool \<Rightarrow> fdesc option" where
  "wdesc k c \<equiv> Some \<lparr>target = PipeW k, cloexec = c\<rparr>"

abbreviation pcount :: "nat \<Rightarrow> nat \<Rightarrow> pipe" where
  "pcount r w \<equiv> \<lparr>buf = [], readers = r, writers = w\<rparr>"

definition tty :: fdesc where
  "tty = \<lparr>target = Other 0, cloexec = False\<rparr>"

definition sys0 :: sys where
  "sys0 = sys_with [None, Some tty, Some tty] [] 0"

text \<open>The descriptor table of the parent once both pipes are set up.\<close>

definition table1 :: "fdesc option list" where
  "table1 = [None, Some tty, Some tty, None, None, rdesc 0 True, wdesc 0 True, rdesc 1 True, wdesc 1 True]"

text \<open>The states in which the three children of the example run replace their image, and
  the state in which the parent exits.\<close>

definition image_a :: sys where
  "image_a = sys_with [rdesc 2 False, wdesc 0 False, Some tty, None, None, None, None, None, None]
       [pcount 1 2, pcount 1 1, pcount 1 0] 1"

definition image_b :: sys where
  "image_b = sys_with [rdesc 3 False, wdesc 1 False, Some tty, None, None, None, None, None, None]
       [pcount 1 2, pcount 1 2, pcount 1 0, pcount 1 0] 2"

definition image_diff :: sys where
  "image_diff =
     sys_with [rdesc 4 False, Some tty, Some tty, rdesc 0 False, rdesc 1 False, None, None, None, None, None]
       [pcount 2 2, pcount 2 2, pcount 1 0, pcount 1 0, pcount 1 0] 3"

definition parent_end :: sys where
  "parent_end = sys_with [] [pcount 1 1, pcount 1 1, pcount 1 0, pcount 1 0, pcount 1 0] 3"

text \<open>Two environments with \<^verbatim>\<open>SHELL\<close> set, the second in secure-execution mode, and two
  command lines, the second with two flags.\<close>

definition env0 :: environ where
  "env0 = \<lparr>vars = (\<lambda>n. if n = ''SHELL'' then Some ''/bin/zsh'' else None), secure = False\<rparr>"

definition env1 :: environ where
  "env1 = \<lparr>vars = (\<lambda>n. if n = ''SHELL'' then Some ''/bin/zsh'' else None), secure = True\<rparr>"

definition av0 :: "string list" where
  "av0 = [''ediff'', ''echo a'', ''echo b'']"


section \<open>The argument vector\<close>

lemma alloc_blocks: "alloc h n = (b, h') \<Longrightarrow> blocks h' = blocks h"
  by (auto simp: alloc_def)

lemma alloc_True: "alloc h n = (True, h') \<Longrightarrow> 0 < n \<and> n \<le> PTRDIFF_MAX"
  by (auto simp: alloc_def)

lemma args_init_Inr:
  assumes "args_init h n = Inr (a, h')"
  shows "args_wf a" and "argc a = 0" and "blocks h' = blocks h" and "capacity a = n"
  using assms
  by (auto simp: args_init_def calloc_ptrs_def args_wf_def
      split: if_splits option.splits prod.splits bool.splits dest: alloc_blocks alloc_True)

lemma small_sizes:
  assumes "c * PTR_SIZE \<le> PTRDIFF_MAX"
  shows "c < SIZE_MOD" and "(c * 2) mod SIZE_MOD = 2 * c"
    and "(2 * c * PTR_SIZE) mod SIZE_MOD = 2 * c * PTR_SIZE"
  using assms by (simp_all add: PTR_SIZE_def PTRDIFF_MAX_def SIZE_MOD_def)

lemma args_grow_Inr:
  assumes "args_wf a" and "args_grow h a = Inr (a', h')"
  shows "argc a' = argc a" and "argc a + 1 < capacity a'" and "length (argv a') = capacity a'"
    and "capacity a' * PTR_SIZE \<le> PTRDIFF_MAX"
    and "take (argc a) (argv a') = take (argc a) (argv a)"
    and "blocks h' = blocks h"
    and "capacity a' = (if argc a + 1 = capacity a then 2 * capacity a else capacity a)"
proof -
  from assms(1) have wf: "argc a < capacity a" "length (argv a) = capacity a"
    "capacity a * PTR_SIZE \<le> PTRDIFF_MAX" by (simp_all add: args_wf_def)
  note sz = small_sizes [OF wf(3)]
  have n: "(argc a + 1) mod SIZE_MOD = argc a + 1"
    using wf(1) sz(1) by simp
  show "argc a' = argc a" "argc a + 1 < capacity a'" "length (argv a') = capacity a'"
    "capacity a' * PTR_SIZE \<le> PTRDIFF_MAX"
    "take (argc a) (argv a') = take (argc a) (argv a)"
    "blocks h' = blocks h"
    "capacity a' = (if argc a + 1 = capacity a then 2 * capacity a else capacity a)"
    using assms(2) wf n sz
    by (auto simp: args_grow_def realloc_ptrs_def Let_def PTR_SIZE_def
        split: if_splits option.splits prod.splits bool.splits dest: alloc_blocks alloc_True)
qed

lemma args_store_Inr:
  assumes "argc a + 1 < length (argv a)" and "length (argv a) * PTR_SIZE \<le> PTRDIFF_MAX"
    and "args_store h a s = Inr (a', h')"
  shows "argc a' = argc a + 1" and "capacity a' = capacity a"
    and "argv a' = (argv a)[argc a := Ptr (length (blocks h)), argc a + 1 := Null]"
    and "blocks h' = blocks h @ [s]"
proof -
  have "(argc a + 1) mod SIZE_MOD = argc a + 1"
    using assms(1) small_sizes(1) [OF assms(2)] by simp
  then show "argc a' = argc a + 1" "capacity a' = capacity a"
    "argv a' = (argv a)[argc a := Ptr (length (blocks h)), argc a + 1 := Null]"
    "blocks h' = blocks h @ [s]"
    using assms(1,3)
    by (auto simp: args_store_def strdup_def Let_def
        split: option.splits prod.splits bool.splits if_splits dest: alloc_blocks)
qed

lemma args_store_Inl:
  assumes "argc a + 1 < length (argv a)" and "length (argv a) * PTR_SIZE \<le> PTRDIFF_MAX"
    and "args_store h a s = Inl e"
  shows "e = Fatal ''malloc''"
proof -
  have "(argc a + 1) mod SIZE_MOD = argc a + 1"
    using assms(1) small_sizes(1) [OF assms(2)] by simp
  then show ?thesis
    using assms(1,3)
    by (auto simp: args_store_def Let_def split: option.splits prod.splits if_splits)
qed

lemma args_grow_Inl:
  assumes "args_wf a" and "args_grow h a = Inl e"
  shows "e = Fatal ''realloc''"
  using assms
  by (auto simp: args_grow_def args_wf_def Let_def split: if_splits option.splits prod.splits)

lemma args_add_Inl:
  assumes "args_wf a" and "args_add h a s = Inl e"
  shows "e = Fatal ''realloc'' \<or> e = Fatal ''malloc''"
proof (cases "args_grow h a")
  case (Inl e')
  with assms show ?thesis
    by (auto simp: args_add_def dest: args_grow_Inl)
next
  case (Inr r)
  obtain ag hg where r: "r = (ag, hg)" by (cases r)
  note g = args_grow_Inr [OF assms(1) Inr [unfolded r]]
  from assms(2) Inr r have "args_store hg ag s = Inl e"
    by (simp add: args_add_def)
  with g show ?thesis
    by (auto dest!: args_store_Inl [rotated 2])
qed

lemma args_add_Inr:
  assumes "args_holds h a ps ss" and "args_add h a s = Inr (a', h')"
  shows "args_holds h' a' (ps @ [length (blocks h)]) (ss @ [s])"
    and "blocks h' = blocks h @ [s]"
    and "capacity a' = (if argc a + 1 = capacity a then 2 * capacity a else capacity a)"
proof -
  from assms(1) have wf: "args_wf a" by (simp add: args_holds_def)
  from assms(2) obtain ag hg where grow: "args_grow h a = Inr (ag, hg)"
    and store: "args_store hg ag s = Inr (a', h')"
    by (auto simp: args_add_def split: sum.splits)
  note g = args_grow_Inr [OF wf grow]
  from g have pre: "argc ag + 1 < length (argv ag)" "length (argv ag) * PTR_SIZE \<le> PTRDIFF_MAX"
    by simp_all
  note st = args_store_Inr [OF pre store]
  show "blocks h' = blocks h @ [s]" using st(4) g(6) by simp
  show "capacity a' = (if argc a + 1 = capacity a then 2 * capacity a else capacity a)"
    using st(2) g(7) by simp
  have v: "argv a' = (argv ag)[argc a := Ptr (length (blocks h)), argc a + 1 := Null]"
    using st(3) g(1,6) by simp
  have len: "argc a + 1 < length (argv ag)" using g by simp
  have tk: "take (argc a + 1) (argv a') = take (argc a) (argv a) @ [Ptr (length (blocks h))]"
    using len g(5) unfolding v
    by (simp add: take_Suc_conv_app_nth)
  have "args_wf a'"
    using st(1,2) g len unfolding args_wf_def v by simp
  moreover have "take (argc a') (argv a') = map Ptr (ps @ [length (blocks h)])"
    using tk assms(1) st(1) g(1) by (simp add: args_holds_def)
  moreover have "distinct (ps @ [length (blocks h)])"
    using assms(1) by (auto simp: args_holds_def)
  moreover have "\<forall>p\<in>set (ps @ [length (blocks h)]). p < length (blocks h')"
    using assms(1) \<open>blocks h' = blocks h @ [s]\<close> by (auto simp: args_holds_def)
  moreover have "map ((!) (blocks h')) (ps @ [length (blocks h)]) = ss @ [s]"
    using assms(1) \<open>blocks h' = blocks h @ [s]\<close> by (auto simp: args_holds_def nth_append)
  ultimately show "args_holds h' a' (ps @ [length (blocks h)]) (ss @ [s])"
    using assms(1) st(1) g(1) by (simp add: args_holds_def)
qed

lemma args_holds_init:
  assumes "args_init h n = Inr (a, h')"
  shows "args_holds h' a [] []"
  using args_init_Inr [OF assms] by (simp add: args_holds_def)

lemma args_add_all_Inr:
  assumes "args_holds h a ps ss" and "args_add_all h a ts = Inr (a', h')"
  shows "\<exists>qs. args_holds h' a' (ps @ qs) (ss @ ts) \<and> (\<forall>q\<in>set qs. length (blocks h) \<le> q) \<and>
           blocks h' = blocks h @ ts"
  using assms
proof (induction ts arbitrary: h a ps ss)
  case Nil
  then have "args_holds h' a' (ps @ []) (ss @ [])" "blocks h' = blocks h @ []" by simp_all
  then show ?case by (intro exI [of _ "[]"]) simp
next
  case (Cons t ts)
  from Cons.prems(2) obtain a1 h1 where one: "args_add h a t = Inr (a1, h1)"
    and rest: "args_add_all h1 a1 ts = Inr (a', h')"
    by (auto split: sum.splits)
  note step = args_add_Inr [OF Cons.prems(1) one]
  from Cons.IH [OF step(1) rest] obtain qs where
    qs: "args_holds h' a' ((ps @ [length (blocks h)]) @ qs) ((ss @ [t]) @ ts)"
      "\<forall>q\<in>set qs. length (blocks h1) \<le> q" "blocks h' = blocks h1 @ ts"
    by blast
  have "args_holds h' a' (ps @ (length (blocks h) # qs)) (ss @ t # ts)"
    using qs(1) by simp
  moreover have "\<forall>q\<in>set (length (blocks h) # qs). length (blocks h) \<le> q"
    using qs(2) step(2) by auto
  moreover have "blocks h' = blocks h @ t # ts"
    using qs(3) step(2) by simp
  ultimately show ?case by blast
qed

lemma args_add_all_Inl:
  assumes "args_holds h a ps ss" and "args_add_all h a ts = Inl e"
  shows "e = Fatal ''realloc'' \<or> e = Fatal ''malloc''"
  using assms
proof (induction ts arbitrary: h a ps ss)
  case Nil
  then show ?case by simp
next
  case (Cons t ts)
  show ?case
  proof (cases "args_add h a t")
    case (Inl e')
    with Cons.prems show ?thesis
      by (auto simp: args_holds_def dest: args_add_Inl)
  next
    case (Inr r)
    obtain a1 h1 where r: "r = (a1, h1)" by (cases r)
    from Cons.prems(2) Inr r have "args_add_all h1 a1 ts = Inl e" by simp
    with Cons.IH [OF args_add_Inr(1) [OF Cons.prems(1) Inr [unfolded r]]] show ?thesis .
  qed
qed

lemma c_argv_ptrs:
  assumes "take (length ps) v = map Ptr ps" and "length ps < length v" and "v ! length ps = Null"
    and "\<forall>p\<in>set ps. p < length (blocks h)"
  shows "c_argv h v = Some (map ((!) (blocks h)) ps)"
  using assms
proof (induction ps arbitrary: v)
  case Nil
  then show ?case by (cases v) simp_all
next
  case (Cons p ps)
  from Cons.prems(1,2) obtain w where v: "v = Ptr p # w"
    by (cases v) auto
  with Cons.prems have "c_argv h w = Some (map ((!) (blocks h)) ps)"
    by (intro Cons.IH) simp_all
  with v Cons.prems(4) show ?case by simp
qed

lemma args_holds_c_argv:
  assumes "args_holds h a ps ss"
  shows "c_argv h (argv a) = Some ss"
  using assms c_argv_ptrs [of ps "argv a" h]
  by (simp add: args_holds_def args_wf_def)

lemma args_holds_deref:
  assumes "args_holds h a ps ss"
  shows "map (deref h) (take (argc a) (argv a)) = map Some ss"
  using assms by (auto simp: args_holds_def)

subsection \<open>What a push returns, in closed form\<close>

text \<open>On a well-formed vector none of the \<^verbatim>\<open>size_t\<close> operations wraps, so that the
  result of \<open>args_init\<close>, of the two halves of \<open>args_add\<close> and of \<open>args_add\<close> itself is
  determined by the sizes and by what the allocator grants.\<close>

lemma args_init_eq:
  "args_init h n =
     (if n = 0 then Inl Assertion
      else if n * PTR_SIZE \<le> PTRDIFF_MAX \<and> grant h (reqs h)
        then Inr (\<lparr>capacity = n, argc = 0, argv = replicate n Null\<rparr>, h\<lparr>reqs := Suc (reqs h)\<rparr>)
      else Inl (Fatal ''calloc''))"
  by (auto simp: args_init_def calloc_ptrs_def alloc_def PTR_SIZE_def)

lemma args_grow_eq:
  assumes "args_wf a"
  shows "args_grow h a =
     (if argc a + 1 = capacity a then
        if 2 * capacity a * PTR_SIZE \<le> PTRDIFF_MAX \<and> grant h (reqs h)
        then Inr (a\<lparr>capacity := 2 * capacity a,
                   argv := argv a @ map (junk h) [capacity a..<2 * capacity a]\<rparr>,
                 h\<lparr>reqs := Suc (reqs h)\<rparr>)
        else Inl (Fatal ''realloc'')
      else Inr (a, h))"
proof -
  from assms have wf: "argc a < capacity a" "length (argv a) = capacity a"
    "capacity a * PTR_SIZE \<le> PTRDIFF_MAX" by (simp_all add: args_wf_def)
  note sz = small_sizes [OF wf(3)]
  have n: "(argc a + 1) mod SIZE_MOD = argc a + 1"
    using wf(1) sz(1) by simp
  have d: "2 * capacity a * PTR_SIZE div PTR_SIZE = 2 * capacity a"
    by (simp add: PTR_SIZE_def)
  have p: "0 < 2 * capacity a * PTR_SIZE" using wf(1) by (simp add: PTR_SIZE_def)
  show ?thesis
    unfolding args_grow_def realloc_ptrs_def alloc_def Let_def
    using wf n sz d p by auto
qed

lemma args_store_eq:
  assumes "argc a + 1 < length (argv a)" and "length (argv a) * PTR_SIZE \<le> PTRDIFF_MAX"
  shows "args_store h a s =
     (if length s < PTRDIFF_MAX \<and> grant h (reqs h)
      then Inr (a\<lparr>argc := argc a + 1,
                 argv := (argv a)[argc a := Ptr (length (blocks h)), argc a + 1 := Null]\<rparr>,
               h\<lparr>reqs := Suc (reqs h), blocks := blocks h @ [s]\<rparr>)
      else Inl (Fatal ''malloc''))"
proof -
  have n: "(argc a + 1) mod SIZE_MOD = argc a + 1"
    using assms(1) small_sizes(1) [OF assms(2)] by simp
  have l: "length s + 1 \<le> PTRDIFF_MAX \<longleftrightarrow> length s < PTRDIFF_MAX" by auto
  show ?thesis
    unfolding args_store_def strdup_def alloc_def Let_def
    using assms(1) n l by auto
qed

lemma args_add_eq:
  assumes "args_wf a"
  shows "args_add h a s =
     (if argc a + 1 = capacity a then
        if 2 * capacity a * PTR_SIZE \<le> PTRDIFF_MAX \<and> grant h (reqs h) then
          if length s < PTRDIFF_MAX \<and> grant h (Suc (reqs h))
          then Inr (\<lparr>capacity = 2 * capacity a, argc = argc a + 1,
                     argv = (argv a @ map (junk h) [capacity a..<2 * capacity a])
                              [argc a := Ptr (length (blocks h)), argc a + 1 := Null]\<rparr>,
                   h\<lparr>reqs := Suc (Suc (reqs h)), blocks := blocks h @ [s]\<rparr>)
          else Inl (Fatal ''malloc'')
        else Inl (Fatal ''realloc'')
      else
        if length s < PTRDIFF_MAX \<and> grant h (reqs h)
        then Inr (\<lparr>capacity = capacity a, argc = argc a + 1,
                   argv = (argv a)[argc a := Ptr (length (blocks h)), argc a + 1 := Null]\<rparr>,
                 h\<lparr>reqs := Suc (reqs h), blocks := blocks h @ [s]\<rparr>)
        else Inl (Fatal ''malloc''))"
proof -
  from assms have wf: "argc a < capacity a" "length (argv a) = capacity a"
    "capacity a * PTR_SIZE \<le> PTRDIFF_MAX" by (simp_all add: args_wf_def)
  show ?thesis
  proof (cases "argc a + 1 = capacity a")
    case False
    then have g: "args_grow h a = Inr (a, h)" using args_grow_eq [OF assms] by simp
    have "argc a + 1 < length (argv a)" using wf False by simp
    from args_store_eq [OF this] wf have "args_store h a s =
     (if length s < PTRDIFF_MAX \<and> grant h (reqs h)
      then Inr (a\<lparr>argc := argc a + 1,
                 argv := (argv a)[argc a := Ptr (length (blocks h)), argc a + 1 := Null]\<rparr>,
               h\<lparr>reqs := Suc (reqs h), blocks := blocks h @ [s]\<rparr>)
      else Inl (Fatal ''malloc''))" by simp
    with g False show ?thesis by (simp add: args_add_def)
  next
    case True
    show ?thesis
    proof (cases "2 * capacity a * PTR_SIZE \<le> PTRDIFF_MAX \<and> grant h (reqs h)")
      case False
      then have "args_grow h a = Inl (Fatal ''realloc'')"
        using args_grow_eq [OF assms, of h] True by auto
      with True False show ?thesis by (auto simp: args_add_def)
    next
      case ok: True
      define ag where "ag = a\<lparr>capacity := 2 * capacity a,
                   argv := argv a @ map (junk h) [capacity a..<2 * capacity a]\<rparr>"
      define hg where "hg = h\<lparr>reqs := Suc (reqs h)\<rparr>"
      have g: "args_grow h a = Inr (ag, hg)"
        using args_grow_eq [OF assms, of h] True ok by (simp add: ag_def hg_def)
      have 1: "argc ag + 1 < length (argv ag)" using wf True by (simp add: ag_def)
      have 2: "length (argv ag) * PTR_SIZE \<le> PTRDIFF_MAX" using wf ok by (simp add: ag_def PTR_SIZE_def)
      from args_store_eq [OF 1 2, of hg s] g True ok show ?thesis
        by (simp add: args_add_def ag_def hg_def)
    qed
  qed
qed

lemma args_add_wf:
  assumes "args_wf a" and "args_add h a s = Inr (a', h')"
  shows "args_wf a'" and "argc a' = argc a + 1" and "grant h' = grant h" and "reqs h \<le> reqs h'"
    and "reqs h' \<le> reqs h + 2"
  using assms(2) assms(1) unfolding args_add_eq [OF assms(1)]
  by (auto simp: args_wf_def split: if_splits)

lemma args_add_all_total:
  assumes "args_wf a" and "\<forall>k\<ge>reqs h. grant h k" and "\<forall>t\<in>set ts. length t < PTRDIFF_MAX"
    and "2 * PTR_SIZE * (argc a + length ts) \<le> PTRDIFF_MAX"
  shows "\<exists>a' h'. args_add_all h a ts = Inr (a', h')"
  using assms
proof (induction ts arbitrary: h a)
  case Nil
  then show ?case by simp
next
  case (Cons t ts)
  have "2 * capacity a * PTR_SIZE \<le> PTRDIFF_MAX" if "argc a + 1 = capacity a"
  proof -
    have "2 * capacity a * PTR_SIZE \<le> 2 * PTR_SIZE * (argc a + length (t # ts))"
      using that by (simp add: PTR_SIZE_def)
    with Cons.prems(4) show ?thesis by linarith
  qed
  moreover have "grant h (reqs h)" "grant h (Suc (reqs h))" "length t < PTRDIFF_MAX"
    using Cons.prems(2,3) by simp_all
  ultimately have "\<exists>a1 h1. args_add h a t = Inr (a1, h1)"
    unfolding args_add_eq [OF Cons.prems(1)] by simp
  then obtain a1 h1 where one: "args_add h a t = Inr (a1, h1)" by blast
  note w = args_add_wf [OF Cons.prems(1) one]
  have "\<exists>a' h'. args_add_all h1 a1 ts = Inr (a', h')"
  proof (rule Cons.IH [OF w(1)])
    show "\<forall>k\<ge>reqs h1. grant h1 k" using Cons.prems(2) w(3,4) by auto
    show "\<forall>t\<in>set ts. length t < PTRDIFF_MAX" using Cons.prems(3) by simp
    show "2 * PTR_SIZE * (argc a1 + length ts) \<le> PTRDIFF_MAX" using Cons.prems(4) w(2) by simp
  qed
  with one show ?case by simp
qed

subsection \<open>A run on the example heap\<close>

lemmas heap_eval = args_init_def args_add_def args_grow_def args_store_def calloc_ptrs_def
  realloc_ptrs_def strdup_def alloc_def SIZE_MOD_def PTRDIFF_MAX_def PTR_SIZE_def Let_def

lemma replicate_2: "replicate 2 x = [x, x]"
  by (simp add: numeral_2_eq_2)

lemma heap0_args_init: "args_init heap0 2 = Inr (\<lparr>capacity = 2, argc = 0, argv = [Null, Null]\<rparr>, heap0\<lparr>reqs := 1\<rparr>)"
  by (simp add: heap_eval heap0_def replicate_2)

lemma heap0_args_add_all: "args_add_all (heap0\<lparr>reqs := 1\<rparr>) \<lparr>capacity = 2, argc = 0, argv = [Null, Null]\<rparr> [''diff'', ''-u'']
  = Inr (\<lparr>capacity = 4, argc = 2, argv = [Ptr 0, Ptr 1, Null, Ptr 3]\<rparr>, heap0\<lparr>reqs := 4, blocks := [''diff'', ''-u'']\<rparr>)"
  by (simp add: heap_eval heap0_def upt_rec)

lemma heap0_args_add: "args_add (heap0\<lparr>reqs := 1\<rparr>) \<lparr>capacity = 2, argc = 0, argv = [Null, Null]\<rparr> ''diff''
  = Inr (\<lparr>capacity = 2, argc = 1, argv = [Ptr 0, Null]\<rparr>, heap0\<lparr>reqs := 2, blocks := [''diff'']\<rparr>)"
  by (simp add: heap_eval heap0_def)

section \<open>The descriptor table and the system calls\<close>

subsection \<open>What each call does to the table\<close>

lemma fd_get_put: "fd_get (fd_put t n e) m = (if m = n then e else fd_get t m)"
  by (auto simp: fd_get_def fd_put_def nth_append nth_list_update)

lemma lowest_free_SomeD:
  assumes "lowest_free t lim ge = Some n"
  shows "ge \<le> n" and "n < lim" and "fd_get t n = None"
proof -
  from assms obtain i where i: "i < length [ge..<lim]" "fd_get t ([ge..<lim] ! i) = None"
    "n = [ge..<lim] ! i"
    unfolding lowest_free_def find_Some_iff by blast
  then have "n = ge + i" "i < lim - ge" by simp_all
  with i show "ge \<le> n" "n < lim" "fd_get t n = None" by simp_all
qed

lemma lowest_free_least:
  assumes "lowest_free t lim ge = Some n" and "ge \<le> m" and "m < n"
  shows "fd_get t m \<noteq> None"
proof -
  from assms(1) obtain i where i: "i < length [ge..<lim]" "n = [ge..<lim] ! i"
    "\<forall>j<i. fd_get t ([ge..<lim] ! j) \<noteq> None"
    unfolding lowest_free_def find_Some_iff by blast
  then have n: "n = ge + i" "i < lim - ge" by simp_all
  with assms(2,3) have "m - ge < i" by simp
  with i(3) have "fd_get t ([ge..<lim] ! (m - ge)) \<noteq> None" by blast
  moreover have "[ge..<lim] ! (m - ge) = m"
    using assms(2,3) n by simp
  ultimately show ?thesis by simp
qed

lemma lowest_free_eqI:
  assumes "ge \<le> n" and "n < lim" and "fd_get t n = None"
    and "\<And>m. ge \<le> m \<Longrightarrow> m < n \<Longrightarrow> fd_get t m \<noteq> None"
  shows "lowest_free t lim ge = Some n"
  unfolding lowest_free_def find_Some_iff
proof (intro exI [of _ "n - ge"] conjI allI impI)
  show "n - ge < length [ge..<lim]" using assms(1,2) by simp
  show "fd_get t ([ge..<lim] ! (n - ge)) = None" using assms(1,2,3) by simp
  show "n = [ge..<lim] ! (n - ge)" using assms(1,2) by simp
  fix j assume "j < n - ge"
  then have "[ge..<lim] ! j = ge + j" "ge + j < n" using assms(1,2) by simp_all
  then show "fd_get t ([ge..<lim] ! j) \<noteq> None" using assms(4) [of "ge + j"] by simp
qed

lemma sys_pipe_lowest:
  "sys_pipe s = Some (r, w, s') \<longleftrightarrow>
     lowest_free (fds s) (nofile s) 0 = Some r \<and> lowest_free (fds s) (nofile s) (Suc r) = Some w \<and>
     s' = s\<lparr>fds := fd_put (fd_put (fds s) r
                     (Some \<lparr>target = PipeR (length (pipes s)), cloexec = False\<rparr>)) w
                     (Some \<lparr>target = PipeW (length (pipes s)), cloexec = False\<rparr>),
                 pipes := pipes s @ [\<lparr>buf = [], readers = 1, writers = 1\<rparr>]\<rparr>"
  by (auto simp: sys_pipe_def split: option.splits)

text \<open>The two descriptors that \<open>sys_pipe\<close> chooses depend only on which descriptors
  below them are closed.\<close>

lemma sys_pipe_same_numbers:
  assumes "sys_pipe s = Some (r, w, s')" and "nofile t = nofile s"
    and "fd_get (fds t) r = None" and "fd_get (fds t) w = None"
    and "\<And>m. fd_get (fds s) m \<noteq> None \<Longrightarrow> fd_get (fds t) m \<noteq> None"
  shows "\<exists>t'. sys_pipe t = Some (r, w, t')"
proof -
  from assms(1) have lr: "lowest_free (fds s) (nofile s) 0 = Some r"
    and lw: "lowest_free (fds s) (nofile s) (Suc r) = Some w"
    by (simp_all add: sys_pipe_lowest)
  have "lowest_free (fds t) (nofile t) 0 = Some r"
    using lowest_free_SomeD [OF lr] lowest_free_least [OF lr] assms(2,3,5)
    by (intro lowest_free_eqI) auto
  moreover have "lowest_free (fds t) (nofile t) (Suc r) = Some w"
    using lowest_free_SomeD [OF lw] lowest_free_least [OF lw] assms(2,4,5)
    by (intro lowest_free_eqI) auto
  ultimately show ?thesis by (simp add: sys_pipe_lowest)
qed

lemma sys_pipe_SomeD:
  assumes "sys_pipe s = Some (r, w, s')"
  shows "r < w" and "w < nofile s" and "fd_get (fds s) r = None" and "fd_get (fds s) w = None"
    and "s' = s\<lparr>fds := fd_put (fd_put (fds s) r
                     (Some \<lparr>target = PipeR (length (pipes s)), cloexec = False\<rparr>)) w
                     (Some \<lparr>target = PipeW (length (pipes s)), cloexec = False\<rparr>),
                 pipes := pipes s @ [\<lparr>buf = [], readers = 1, writers = 1\<rparr>]\<rparr>"
proof -
  from assms obtain lr: "lowest_free (fds s) (nofile s) 0 = Some r"
    and lw: "lowest_free (fds s) (nofile s) (Suc r) = Some w"
    and s': "s' = s\<lparr>fds := fd_put (fd_put (fds s) r
                     (Some \<lparr>target = PipeR (length (pipes s)), cloexec = False\<rparr>)) w
                     (Some \<lparr>target = PipeW (length (pipes s)), cloexec = False\<rparr>),
                 pipes := pipes s @ [\<lparr>buf = [], readers = 1, writers = 1\<rparr>]\<rparr>"
    by (auto simp: sys_pipe_def split: option.splits)
  from lowest_free_SomeD [OF lr] lowest_free_SomeD [OF lw] s'
  show "r < w" "w < nofile s" "fd_get (fds s) r = None" "fd_get (fds s) w = None"
    "s' = s\<lparr>fds := fd_put (fd_put (fds s) r
                     (Some \<lparr>target = PipeR (length (pipes s)), cloexec = False\<rparr>)) w
                     (Some \<lparr>target = PipeW (length (pipes s)), cloexec = False\<rparr>),
                 pipes := pipes s @ [\<lparr>buf = [], readers = 1, writers = 1\<rparr>]\<rparr>"
    by simp_all
qed

lemma xdup_ge_InrD:
  assumes "xdup_ge s fd ge = Inr (n, s')"
  shows "ge \<le> n" and "n < nofile s" and "fd_get (fds s) n = None"
    and "\<exists>d. fd_get (fds s) fd = Some d \<and>
           s' = s\<lparr>fds := fd_put (fds s) n (Some (d\<lparr>cloexec := True\<rparr>)),
                   pipes := retain (target d) (pipes s)\<rparr>"
proof -
  from assms obtain d where d: "fd_get (fds s) fd = Some d"
    and l: "lowest_free (fds s) (nofile s) ge = Some n"
    and s': "s' = s\<lparr>fds := fd_put (fds s) n (Some (d\<lparr>cloexec := True\<rparr>)),
                   pipes := retain (target d) (pipes s)\<rparr>"
    by (auto simp: xdup_ge_def fcntl_dupfd_cloexec_def split: option.splits)
  from lowest_free_SomeD [OF l] d s'
  show "ge \<le> n" "n < nofile s" "fd_get (fds s) n = None"
    "\<exists>d. fd_get (fds s) fd = Some d \<and>
           s' = s\<lparr>fds := fd_put (fds s) n (Some (d\<lparr>cloexec := True\<rparr>)),
                   pipes := retain (target d) (pipes s)\<rparr>"
    by simp_all
qed

lemma xdup_ge_InlD: "xdup_ge s fd ge = Inl (e, s') \<Longrightarrow> s' = s"
  by (auto simp: xdup_ge_def split: option.splits)

lemma sys_close_open:
  "fd_get (fds s) n = Some d \<Longrightarrow>
   sys_close s n = s\<lparr>fds := fd_put (fds s) n None, pipes := release (target d) (pipes s)\<rparr>"
  by (simp add: sys_close_def)

lemma sys_close_closed: "fd_get (fds s) n = None \<Longrightarrow> sys_close s n = s"
  by (simp add: sys_close_def)

lemma main_pipe_InrD:
  assumes "main_pipe s = Inr ((q0, q1), s')"
  shows "DIFF_MAXFD < q0" and "DIFF_MAXFD < q1" and "q0 \<noteq> q1"
    and "q0 < nofile s" and "q1 < nofile s"
    and "fd_get (fds s) q0 = None" and "fd_get (fds s) q1 = None"
    and "fd_get (fds s') q0 = Some \<lparr>target = PipeR (length (pipes s)), cloexec = True\<rparr>"
    and "fd_get (fds s') q1 = Some \<lparr>target = PipeW (length (pipes s)), cloexec = True\<rparr>"
    and "\<And>m. m \<noteq> q0 \<Longrightarrow> m \<noteq> q1 \<Longrightarrow> fd_get (fds s') m = fd_get (fds s) m"
    and "pipes s' = pipes s @ [\<lparr>buf = [], readers = 1, writers = 1\<rparr>]"
    and "s'\<lparr>fds := fds s, pipes := pipes s\<rparr> = s"
    and "\<exists>p0 p1 s1. sys_pipe s = Some (p0, p1, s1) \<and> p0 \<noteq> q0 \<and> p0 \<noteq> q1 \<and> p1 \<noteq> q0 \<and> p1 \<noteq> q1"
proof -
  from assms obtain p0 p1 s1 s2 s3 where
    p: "sys_pipe s = Some (p0, p1, s1)"
    and x0: "xdup_ge s1 p0 (DIFF_MAXFD + 1) = Inr (q0, s2)"
    and x1: "xdup_ge s2 p1 (DIFF_MAXFD + 1) = Inr (q1, s3)"
    and s': "s' = sys_close (sys_close s3 p0) p1"
    by (auto simp: main_pipe_def split: option.splits sum.splits)
  note P = sys_pipe_SomeD [OF p]
  note X0 = xdup_ge_InrD [OF x0]
  note X1 = xdup_ge_InrD [OF x1]
  let ?k = "length (pipes s)"
  have g1: "fd_get (fds s1) m = (if m = p1 then Some \<lparr>target = PipeW ?k, cloexec = False\<rparr>
       else if m = p0 then Some \<lparr>target = PipeR ?k, cloexec = False\<rparr> else fd_get (fds s) m)" for m
    unfolding P(5) by (simp add: fd_get_put)
  from X0(3) g1 [of q0] P(3,4) have q0: "q0 \<noteq> p0" "q0 \<noteq> p1" "fd_get (fds s) q0 = None"
    by (auto split: if_splits)
  from X0(4) g1 [of p0] P(1) have s2: "s2 = s1\<lparr>fds := fd_put (fds s1) q0 (Some \<lparr>target = PipeR ?k, cloexec = True\<rparr>),
      pipes := retain (PipeR ?k) (pipes s1)\<rparr>"
    by auto
  have g2: "fd_get (fds s2) m = (if m = q0 then Some \<lparr>target = PipeR ?k, cloexec = True\<rparr>
       else fd_get (fds s1) m)" for m
    unfolding s2 by (simp add: fd_get_put)
  from X1(3) g2 [of q1] g1 [of q1] have q1: "q1 \<noteq> q0" "q1 \<noteq> p0" "q1 \<noteq> p1" "fd_get (fds s) q1 = None"
    by (auto split: if_splits)
  from X1(4) g2 [of p1] g1 [of p1] q0 have s3: "s3 = s2\<lparr>fds := fd_put (fds s2) q1 (Some \<lparr>target = PipeW ?k, cloexec = True\<rparr>),
      pipes := retain (PipeW ?k) (pipes s2)\<rparr>"
    by auto
  have g3: "fd_get (fds s3) m = (if m = q1 then Some \<lparr>target = PipeW ?k, cloexec = True\<rparr>
       else fd_get (fds s2) m)" for m
    unfolding s3 by (simp add: fd_get_put)
  have c0: "sys_close s3 p0 = s3\<lparr>fds := fd_put (fds s3) p0 None, pipes := release (PipeR ?k) (pipes s3)\<rparr>"
    using g3 [of p0] g2 [of p0] g1 [of p0] q0 q1 P(1)
    by (subst sys_close_open [where d = "\<lparr>target = PipeR ?k, cloexec = False\<rparr>"]) auto
  have g4: "fd_get (fds (sys_close s3 p0)) m = (if m = p0 then None else fd_get (fds s3) m)" for m
    unfolding c0 by (simp add: fd_get_put)
  have c1: "s' = (sys_close s3 p0)\<lparr>fds := fd_put (fds (sys_close s3 p0)) p1 None,
       pipes := release (PipeW ?k) (pipes (sys_close s3 p0))\<rparr>"
    unfolding s' using g4 [of p1] g3 [of p1] g2 [of p1] g1 [of p1] q0 q1 P(1)
    by (subst sys_close_open [where d = "\<lparr>target = PipeW ?k, cloexec = False\<rparr>"]) auto
  have g5: "fd_get (fds s') m = (if m = p1 then None else fd_get (fds (sys_close s3 p0)) m)" for m
    by (subst c1) (simp add: fd_get_put)
  show "DIFF_MAXFD < q0" "DIFF_MAXFD < q1" using X0(1) X1(1) by simp_all
  show "q0 \<noteq> q1" using q1 by simp
  show "q0 < nofile s" "q1 < nofile s" using X0(2) X1(2) by (simp_all add: P(5) s2)
  show "fd_get (fds s) q0 = None" "fd_get (fds s) q1 = None" using q0 q1 by simp_all
  show "fd_get (fds s') q0 = Some \<lparr>target = PipeR ?k, cloexec = True\<rparr>"
    using q0 q1 by (simp add: g5 g4 g3 g2)
  show "fd_get (fds s') q1 = Some \<lparr>target = PipeW ?k, cloexec = True\<rparr>"
    using q0 q1 by (simp add: g5 g4 g3 g2)
  show "fd_get (fds s') m = fd_get (fds s) m" if "m \<noteq> q0" "m \<noteq> q1" for m
    using that P(3,4) by (simp add: g5 g4 g3 g2 g1)
  show "pipes s' = pipes s @ [\<lparr>buf = [], readers = 1, writers = 1\<rparr>]"
    by (subst c1, subst c0, subst s3, subst s2, subst P(5)) (simp add: nth_append)
  show "s'\<lparr>fds := fds s, pipes := pipes s\<rparr> = s"
    by (subst c1, subst c0, subst s3, subst s2, subst P(5)) simp
  show "\<exists>p0 p1 s1. sys_pipe s = Some (p0, p1, s1) \<and> p0 \<noteq> q0 \<and> p0 \<noteq> q1 \<and> p1 \<noteq> q0 \<and> p1 \<noteq> q1"
    using p q0 q1 by blast
qed



lemma main_pipes_InrD:
  assumes "main_pipes s = Inr (pa, pb, s')"
  shows "DIFF_MAXFD < fst pa" and "DIFF_MAXFD < snd pa" and "DIFF_MAXFD < fst pb" and "DIFF_MAXFD < snd pb"
    and "distinct [fst pa, snd pa, fst pb, snd pb]"
    and "fst pa < nofile s'" and "fst pb < nofile s'"
    and "fd_get (fds s') (fst pa) = Some \<lparr>target = PipeR (length (pipes s)), cloexec = True\<rparr>"
    and "fd_get (fds s') (snd pa) = Some \<lparr>target = PipeW (length (pipes s)), cloexec = True\<rparr>"
    and "fd_get (fds s') (fst pb) = Some \<lparr>target = PipeR (Suc (length (pipes s))), cloexec = True\<rparr>"
    and "fd_get (fds s') (snd pb) = Some \<lparr>target = PipeW (Suc (length (pipes s))), cloexec = True\<rparr>"
    and "\<And>m. m \<notin> {fst pa, snd pa, fst pb, snd pb} \<Longrightarrow> fd_get (fds s') m = fd_get (fds s) m"
    and "pipes s' = pipes s @ [\<lparr>buf = [], readers = 1, writers = 1\<rparr>, \<lparr>buf = [], readers = 1, writers = 1\<rparr>]"
    and "s'\<lparr>fds := fds s, pipes := pipes s\<rparr> = s"
proof -
  obtain a0 a1 where pa: "pa = (a0, a1)" by (cases pa)
  obtain b0 b1 where pb: "pb = (b0, b1)" by (cases pb)
  from assms obtain t where A: "main_pipe s = Inr ((a0, a1), t)" and B: "main_pipe t = Inr ((b0, b1), s')"
    by (auto simp: main_pipes_def pa pb split: sum.splits)
  note a = main_pipe_InrD [OF A]
  note b = main_pipe_InrD [OF B]
  have t: "nofile t = nofile s"
    using arg_cong [OF a(12), of nofile] by simp
  have s': "nofile s' = nofile s"
    using arg_cong [OF b(12), of nofile] t by simp
  have ne: "b0 \<noteq> a0" "b0 \<noteq> a1" "b1 \<noteq> a0" "b1 \<noteq> a1"
    using a(8,9) b(6,7) by auto
  show "DIFF_MAXFD < fst pa" "DIFF_MAXFD < snd pa" "DIFF_MAXFD < fst pb" "DIFF_MAXFD < snd pb"
    using a(1,2) b(1,2) by (simp_all add: pa pb)
  show "distinct [fst pa, snd pa, fst pb, snd pb]"
    using a(3) b(3) ne by (auto simp: pa pb)
  show "fst pa < nofile s'" "fst pb < nofile s'"
    using a(4) b(4) t s' by (simp_all add: pa pb)
  show "fd_get (fds s') (fst pa) = Some \<lparr>target = PipeR (length (pipes s)), cloexec = True\<rparr>"
    using b(10) [of a0] ne a(8) by (simp add: pa)
  show "fd_get (fds s') (snd pa) = Some \<lparr>target = PipeW (length (pipes s)), cloexec = True\<rparr>"
    using b(10) [of a1] ne a(9) by (simp add: pa)
  show "fd_get (fds s') (fst pb) = Some \<lparr>target = PipeR (Suc (length (pipes s))), cloexec = True\<rparr>"
    using b(8) a(11) by (simp add: pb)
  show "fd_get (fds s') (snd pb) = Some \<lparr>target = PipeW (Suc (length (pipes s))), cloexec = True\<rparr>"
    using b(9) a(11) by (simp add: pb)
  show "fd_get (fds s') m = fd_get (fds s) m" if "m \<notin> {fst pa, snd pa, fst pb, snd pb}" for m
    using that a(10) [of m] b(10) [of m] by (simp add: pa pb)
  show "pipes s' = pipes s @ [\<lparr>buf = [], readers = 1, writers = 1\<rparr>, \<lparr>buf = [], readers = 1, writers = 1\<rparr>]"
    using a(11) b(11) by simp
  have "s'\<lparr>fds := fds s, pipes := pipes s\<rparr> = (s'\<lparr>fds := fds t, pipes := pipes t\<rparr>)\<lparr>fds := fds s, pipes := pipes s\<rparr>"
    by simp
  then show "s'\<lparr>fds := fds s, pipes := pipes s\<rparr> = s"
    unfolding b(12) a(12) .
qed

lemma length_release [simp]: "length (release e ps) = length ps"
  by (cases e) simp_all

lemma length_retain [simp]: "length (retain e ps) = length ps"
  by (cases e) simp_all

lemma eof_pipe_release: "eof_pipe ps k \<Longrightarrow> eof_pipe (release e ps) k"
  by (cases e) (auto simp: eof_pipe_def nth_list_update)

lemma eof_pipe_retain: "eof_pipe ps k \<Longrightarrow> e \<noteq> PipeW k \<Longrightarrow> eof_pipe (retain e ps) k"
  by (cases e) (auto simp: eof_pipe_def nth_list_update)

lemma length_release_those [simp]: "length (release_those P t ps) = length ps"
  unfolding release_those_def
  by (induction t arbitrary: ps) (auto split: option.splits)

lemma eof_pipe_release_those: "eof_pipe ps k \<Longrightarrow> eof_pipe (release_those P t ps) k"
  unfolding release_those_def
  by (induction t arbitrary: ps) (auto split: option.splits intro: eof_pipe_release)

lemma length_retain_all [simp]: "length (retain_all t ps) = length ps"
  unfolding retain_all_def
  by (induction t arbitrary: ps) (auto split: option.splits)

lemma sys_read_eof:
  "fd_get (fds s) fd = Some d \<Longrightarrow> target d = PipeR k \<Longrightarrow> eof_pipe (pipes s) k \<Longrightarrow>
   sys_read s fd = Eof"
  by (simp add: sys_read_def eof_pipe_def)

lemma sys_close_spec:
  shows "fd_get (fds (sys_close s n)) m = (if m = n then None else fd_get (fds s) m)"
    and "length (pipes (sys_close s n)) = length (pipes s)"
    and "eof_pipe (pipes s) k \<Longrightarrow> eof_pipe (pipes (sys_close s n)) k"
    and "(sys_close s n)\<lparr>fds := fds s, pipes := pipes s\<rparr> = s"
  by (auto simp: sys_close_def fd_get_put eof_pipe_release split: option.splits)


lemma sys_dup2_SomeD:
  assumes "sys_dup2 s old new = Some s'"
  shows "old = new \<or> new < nofile s"
    and "\<exists>d. fd_get (fds s) old = Some d \<and>
           fd_get (fds s') new = Some (if old = new then d else d\<lparr>cloexec := False\<rparr>) \<and>
           (\<forall>k. eof_pipe (pipes s) k \<longrightarrow> target d \<noteq> PipeW k \<longrightarrow> eof_pipe (pipes s') k)"
    and "\<And>m. m \<noteq> new \<Longrightarrow> fd_get (fds s') m = fd_get (fds s) m"
    and "length (pipes s') = length (pipes s)"
    and "s'\<lparr>fds := fds s, pipes := pipes s\<rparr> = s"
proof -
  from assms obtain d where d: "fd_get (fds s) old = Some d" and lim: "old = new \<or> new < nofile s"
    and s': "s' = (if old = new then s
       else (sys_close s new)\<lparr>fds := fd_put (fds (sys_close s new)) new (Some (d\<lparr>cloexec := False\<rparr>)),
              pipes := retain (target d) (pipes (sys_close s new))\<rparr>)"
    by (auto simp: sys_dup2_def Let_def split: option.splits if_splits)
  show "old = new \<or> new < nofile s" by (rule lim)
  show "\<exists>d. fd_get (fds s) old = Some d \<and>
           fd_get (fds s') new = Some (if old = new then d else d\<lparr>cloexec := False\<rparr>) \<and>
           (\<forall>k. eof_pipe (pipes s) k \<longrightarrow> target d \<noteq> PipeW k \<longrightarrow> eof_pipe (pipes s') k)"
    using d by (auto simp: s' fd_get_put intro!: eof_pipe_retain sys_close_spec(3))
  show "fd_get (fds s') m = fd_get (fds s) m" if "m \<noteq> new" for m
    using that by (simp add: s' fd_get_put sys_close_spec(1))
  show "length (pipes s') = length (pipes s)"
    by (simp add: s' sys_close_spec(2))
  show "s'\<lparr>fds := fds s, pipes := pipes s\<rparr> = s"
    using sys_close_spec(4) [of s new] by (auto simp: s')
qed

lemma sys_dup2_succeeds:
  "fd_get (fds s) old = Some d \<Longrightarrow> new < nofile s \<Longrightarrow> \<exists>s'. sys_dup2 s old new = Some s'"
  by (simp add: sys_dup2_def Let_def)

lemma clear_flag: "(if c then FD_CLOEXEC else 0) AND NOT FD_CLOEXEC AND FD_CLOEXEC = 0"
  by (simp add: FD_CLOEXEC_def)

lemma clear_cloexec_InrD:
  assumes "clear_cloexec s fd = Inr s'"
  shows "\<exists>d. fd_get (fds s) fd = Some d \<and> fd_get (fds s') fd = Some (d\<lparr>cloexec := False\<rparr>)"
    and "\<And>m. m \<noteq> fd \<Longrightarrow> fd_get (fds s') m = fd_get (fds s) m"
    and "s'\<lparr>fds := fds s\<rparr> = s"
  using assms clear_flag
  by (auto simp: clear_cloexec_def fcntl_getfd_def fcntl_setfd_def fd_get_put
      split: option.splits)

lemma clear_cloexec_InlD: "clear_cloexec s fd = Inl (e, s') \<Longrightarrow> \<exists>l. e = Fatal l"
  by (auto simp: clear_cloexec_def split: option.splits)

lemma closed_reader_InlD: "closed_reader s fd = Inl (e, s') \<Longrightarrow> \<exists>l. e = Fatal l"
  by (auto simp: closed_reader_def Let_def split: option.splits if_splits)

lemma closed_reader_InrD:
  assumes "closed_reader s fd = Inr s'"
  shows "fd_get (fds s') fd = Some \<lparr>target = PipeR (length (pipes s)), cloexec = False\<rparr>"
    and "eof_pipe (pipes s') (length (pipes s))"
    and "\<And>m. m \<noteq> fd \<Longrightarrow> fd_get (fds s') m = fd_get (fds s) m"
    and "length (pipes s') = Suc (length (pipes s))"
    and "s'\<lparr>fds := fds s, pipes := pipes s\<rparr> = s"
proof -
  let ?k = "length (pipes s)"
  from assms obtain p0 p1 s1 where p: "sys_pipe s = Some (p0, p1, s1)"
    and rest: "(if fd \<noteq> p0 then
             (case sys_dup2 (sys_close s1 p1) p0 fd of
                None \<Rightarrow> Inl (Fatal ''dup2'', sys_close s1 p1)
              | Some s3 \<Rightarrow> Inr (sys_close s3 p0))
           else Inr (sys_close s1 p1)) = Inr s'"
    by (auto simp: closed_reader_def Let_def split: option.splits)
  note P = sys_pipe_SomeD [OF p]
  let ?s2 = "sys_close s1 p1"
  have g1: "fd_get (fds s1) m = (if m = p1 then Some \<lparr>target = PipeW ?k, cloexec = False\<rparr>
       else if m = p0 then Some \<lparr>target = PipeR ?k, cloexec = False\<rparr> else fd_get (fds s) m)" for m
    unfolding P(5) by (simp add: fd_get_put)
  have s2: "?s2 = s1\<lparr>fds := fd_put (fds s1) p1 None, pipes := release (PipeW ?k) (pipes s1)\<rparr>"
    using g1 [of p1] by (subst sys_close_open [where d = "\<lparr>target = PipeW ?k, cloexec = False\<rparr>"]) auto
  have g2: "fd_get (fds ?s2) m = (if m = p0 then Some \<lparr>target = PipeR ?k, cloexec = False\<rparr>
       else fd_get (fds s) m)" for m
    using P(1,4) by (simp add: sys_close_spec(1) g1)
  have e2: "eof_pipe (pipes ?s2) ?k"
    by (subst s2, subst P(5)) (simp add: eof_pipe_def)
  have l2: "length (pipes ?s2) = Suc ?k"
    by (subst s2, subst P(5)) simp
  have o2: "?s2\<lparr>fds := fds s, pipes := pipes s\<rparr> = s"
    by (subst s2, subst P(5)) simp
  have all: "fd_get (fds s') fd = Some \<lparr>target = PipeR (length (pipes s)), cloexec = False\<rparr> \<and>
      eof_pipe (pipes s') (length (pipes s)) \<and>
      (\<forall>m. m \<noteq> fd \<longrightarrow> fd_get (fds s') m = fd_get (fds s) m) \<and>
      length (pipes s') = Suc (length (pipes s)) \<and>
      s'\<lparr>fds := fds s, pipes := pipes s\<rparr> = s"
  proof (cases "fd = p0")
    case True
    with rest have "s' = ?s2" by simp
    with True g2 e2 l2 o2 P(3) show "fd_get (fds s') fd = Some \<lparr>target = PipeR (length (pipes s)), cloexec = False\<rparr> \<and>
      eof_pipe (pipes s') (length (pipes s)) \<and>
      (\<forall>m. m \<noteq> fd \<longrightarrow> fd_get (fds s') m = fd_get (fds s) m) \<and>
      length (pipes s') = Suc (length (pipes s)) \<and>
      s'\<lparr>fds := fds s, pipes := pipes s\<rparr> = s" by simp
  next
    case False
    with rest obtain s3 where d: "sys_dup2 ?s2 p0 fd = Some s3" and s': "s' = sys_close s3 p0"
      by (auto split: option.splits)
    note D = sys_dup2_SomeD [OF d]
    from D(2) g2 [of p0] False have g3: "fd_get (fds s3) fd = Some \<lparr>target = PipeR ?k, cloexec = False\<rparr>"
      and e3: "eof_pipe (pipes s3) ?k"
      using e2 by auto
    have "s'\<lparr>fds := fds s, pipes := pipes s\<rparr> = ((sys_close s3 p0)\<lparr>fds := fds s3, pipes := pipes s3\<rparr>)\<lparr>fds := fds s, pipes := pipes s\<rparr>"
      by (simp add: s')
    also have "\<dots> = (s3\<lparr>fds := fds ?s2, pipes := pipes ?s2\<rparr>)\<lparr>fds := fds s, pipes := pipes s\<rparr>"
      by (simp add: sys_close_spec(4))
    also have "\<dots> = s"
      unfolding D(5) o2 ..
    finally have o: "s'\<lparr>fds := fds s, pipes := pipes s\<rparr> = s" .
    from False g3 e3 D(3,4) g2 l2 P(3) o
    show "fd_get (fds s') fd = Some \<lparr>target = PipeR (length (pipes s)), cloexec = False\<rparr> \<and>
      eof_pipe (pipes s') (length (pipes s)) \<and>
      (\<forall>m. m \<noteq> fd \<longrightarrow> fd_get (fds s') m = fd_get (fds s) m) \<and>
      length (pipes s') = Suc (length (pipes s)) \<and>
      s'\<lparr>fds := fds s, pipes := pipes s\<rparr> = s"
      by (auto simp: s' sys_close_spec(1,2) intro: sys_close_spec(3))
  qed
  then show "fd_get (fds s') fd = Some \<lparr>target = PipeR (length (pipes s)), cloexec = False\<rparr>"
    and "eof_pipe (pipes s') (length (pipes s))"
    and "\<And>m. m \<noteq> fd \<Longrightarrow> fd_get (fds s') m = fd_get (fds s) m"
    and "length (pipes s') = Suc (length (pipes s))"
    and "s'\<lparr>fds := fds s, pipes := pipes s\<rparr> = s"
    by simp_all
qed

lemma sys_exec_SomeD:
  assumes "sys_exec s path = Some s'"
  shows "can_exec s path"
    and "fd_get (fds s') m = (case fd_get (fds s) m of None \<Rightarrow> None
                               | Some d \<Rightarrow> if cloexec d then None else Some d)"
    and "eof_pipe (pipes s) k \<Longrightarrow> eof_pipe (pipes s') k"
    and "length (pipes s') = length (pipes s)"
  using assms
  by (auto simp: sys_exec_def fd_get_def eof_pipe_release_those split: if_splits option.splits)

lemma sys_fork_SomeD:
  assumes "sys_fork s = Some s'"
  shows "fds s' = fds s" and "nofile s' = nofile s" and "length (pipes s') = length (pipes s)"
    and "can_exec s' = can_exec s" and "halts s' = halts s" and "fork_ok s' = fork_ok s"
    and "forks s' = Suc (forks s)" and "fork_ok s (forks s)"
  using assms by (auto simp: sys_fork_def split: if_splits)

section \<open>The three children and \<open>main\<close>\<close>

subsection \<open>Producer and consumer\<close>

lemma fst_fail: "fst (fail e s) = die e"
  by (simp add: fail_def)


lemma die_not_Execed [simp]: "die e \<noteq> Execed p dv"
  by (cases e) simp_all

lemma die_not_Blocked [simp]: "die e \<noteq> Blocked"
  by (cases e) simp_all

lemma fail_not_Execed [simp]: "fail e s \<noteq> (Execed p dv, s')"
  by (simp add: fail_def)

lemma sys_waitpid_die: "sys_waitpid s (die e)"
  by (cases e) simp_all

lemma producer_ExecedD:
  assumes "producer s shell cmd pout = (Execed p dv, s')"
  shows "\<exists>s1 s2 s3. sys_dup2 s pout 1 = Some s1 \<and> clear_cloexec s1 1 = Inr s2 \<and>
           closed_reader s2 0 = Inr s3 \<and> sys_exec s3 shell = Some s' \<and>
           p = shell \<and> dv = [shell, ''-c'', cmd]"
proof (cases "sys_dup2 s pout 1")
  case None
  with assms show ?thesis by (simp add: producer_def)
next
  case d: (Some s1)
  show ?thesis
  proof (cases "clear_cloexec s1 1")
    case (Inl r)
    with assms d show ?thesis by (cases r) (simp add: producer_def)
  next
    case c: (Inr s2)
    show ?thesis
    proof (cases "closed_reader s2 0")
      case (Inl r)
      with assms d c show ?thesis by (cases r) (simp add: producer_def)
    next
      case r: (Inr s3)
      show ?thesis
      proof (cases "sys_exec s3 shell")
        case None
        with assms d c r show ?thesis by (simp add: producer_def)
      next
        case (Some s4)
        with assms d c r have "s4 = s'" "shell = p" "[shell, ''-c'', cmd] = dv"
          by (auto simp: producer_def)
        with d c r Some show ?thesis by blast
      qed
    qed
  qed
qed

lemma producer_Execed:
  assumes "producer s shell cmd pout = (Execed p dv, s')" and "fd_get (fds s) pout = Some d"
  shows "p = shell" and "dv = [shell, ''-c'', cmd]" and "can_exec s shell"
    and "fd_get (fds s') 1 = Some (d\<lparr>cloexec := False\<rparr>)"
    and "sys_read s' 0 = Eof"
    and "fd_get (fds s') 0 = Some \<lparr>target = PipeR (length (pipes s)), cloexec = False\<rparr>"
proof -
  from producer_ExecedD [OF assms(1)] obtain s1 s2 s3 where
    d: "sys_dup2 s pout 1 = Some s1" and c: "clear_cloexec s1 1 = Inr s2"
    and r: "closed_reader s2 0 = Inr s3" and x: "sys_exec s3 shell = Some s'"
    and res: "p = shell" "dv = [shell, ''-c'', cmd]"
    by blast
  note D = sys_dup2_SomeD [OF d]
  note C = clear_cloexec_InrD [OF c]
  note R = closed_reader_InrD [OF r]
  note X = sys_exec_SomeD [OF x]
  show "p = shell" "dv = [shell, ''-c'', cmd]" by (rule res)+
  have "can_exec s3 = can_exec s"
    using arg_cong [OF R(5), of can_exec] arg_cong [OF C(3), of can_exec]
      arg_cong [OF D(5), of can_exec] by simp
  with X(1) show "can_exec s shell" by simp
  from D(2) assms(2) have "target (the (fd_get (fds s1) 1)) = target d" "fd_get (fds s1) 1 \<noteq> None"
    by (auto split: if_splits)
  with C(1) have "fd_get (fds s2) 1 = Some (d\<lparr>cloexec := False\<rparr>)"
    using D(2) assms(2) by (auto split: if_splits)
  with R(3) [of 1] have "fd_get (fds s3) 1 = Some (d\<lparr>cloexec := False\<rparr>)" by simp
  then show "fd_get (fds s') 1 = Some (d\<lparr>cloexec := False\<rparr>)"
    by (simp add: X(2))
  have l: "length (pipes s2) = length (pipes s)"
    using D(4) arg_cong [OF C(3), of pipes] by simp
  show 0: "fd_get (fds s') 0 = Some \<lparr>target = PipeR (length (pipes s)), cloexec = False\<rparr>"
    using R(1) l by (simp add: X(2))
  show "sys_read s' 0 = Eof"
    using 0 X(3) [OF R(2)] l by (intro sys_read_eof) auto
qed

lemma producer_ends:
  "fst (producer s shell cmd pout) = Execed shell [shell, ''-c'', cmd] \<or>
   (\<exists>l. fst (producer s shell cmd pout) = Exited 1 l)"
  by (auto simp: producer_def fst_fail split: option.splits sum.splits
      dest!: clear_cloexec_InlD closed_reader_InlD)

lemma consumer_ExecedD:
  assumes "consumer s h a cmda cmdb pa0 pb0 = (Execed p dv, s')"
    and "sys_dup2 s pa0 3 = Some s1" and "sys_dup2 s1 pb0 4 = Some s2"
  shows "\<exists>s3 s4 s5 a' h'. clear_cloexec s2 3 = Inr s3 \<and> clear_cloexec s3 4 = Inr s4 \<and>
           closed_reader s4 0 = Inr s5 \<and>
           args_add_all h a [''--label'', cmda, ''/proc/self/fd/3'',
                             ''--label'', cmdb, ''/proc/self/fd/4''] = Inr (a', h') \<and>
           c_argv h' (argv a') = Some dv \<and> sys_exec s5 DIFF_CMD = Some s' \<and> p = DIFF_CMD"
proof -
  let ?six = "[''--label'', cmda, ''/proc/self/fd/3'', ''--label'', cmdb, ''/proc/self/fd/4'']"
  note defs = consumer_def Let_def assms(2,3)
  show ?thesis
  proof (cases "clear_cloexec s2 3")
    case (Inl r)
    with assms(1) show ?thesis by (cases r) (simp add: defs del: args_add_all.simps)
  next
    case c3: (Inr s3)
    show ?thesis
    proof (cases "clear_cloexec s3 4")
      case (Inl r)
      with assms(1) c3 show ?thesis by (cases r) (simp add: defs del: args_add_all.simps)
    next
      case c4: (Inr s4)
      show ?thesis
      proof (cases "closed_reader s4 0")
        case (Inl r)
        with assms(1) c3 c4 show ?thesis by (cases r) (simp add: defs del: args_add_all.simps)
      next
        case r: (Inr s5)
        show ?thesis
        proof (cases "args_add_all h a ?six")
          case (Inl e)
          with assms(1) c3 c4 r show ?thesis by (simp add: defs del: args_add_all.simps)
        next
          case (Inr ah)
          obtain a' h' where ah: "ah = (a', h')" by (cases ah)
          note add = Inr [unfolded ah]
          show ?thesis
          proof (cases "c_argv h' (argv a')")
            case None
            with assms(1) c3 c4 r add show ?thesis by (simp add: defs del: args_add_all.simps)
          next
            case cv: (Some dv')
            show ?thesis
            proof (cases "sys_exec s5 DIFF_CMD")
              case None
              with assms(1) c3 c4 r add cv show ?thesis by (simp add: defs del: args_add_all.simps)
            next
              case (Some s6)
              with assms(1) c3 c4 r add cv have "dv' = dv" "s6 = s'" "DIFF_CMD = p"
                by (auto simp: defs simp del: args_add_all.simps)
              with c3 c4 r add cv Some show ?thesis by blast
            qed
          qed
        qed
      qed
    qed
  qed
qed

lemma consumer_Execed:
  assumes "consumer s h a cmda cmdb pa0 pb0 = (Execed p dv, s')"
    and "fd_get (fds s) pa0 = Some da" and "fd_get (fds s) pb0 = Some db"
    and "DIFF_MAXFD < pa0" and "DIFF_MAXFD < pb0" and "pa0 < nofile s"
    and "args_holds h a ps ss"
  shows "p = DIFF_CMD"
    and "dv = ss @ [''--label'', cmda, ''/proc/self/fd/3'', ''--label'', cmdb, ''/proc/self/fd/4'']"
    and "can_exec s DIFF_CMD"
    and "fd_get (fds s') 3 = Some (da\<lparr>cloexec := False\<rparr>)"
    and "fd_get (fds s') 4 = Some (db\<lparr>cloexec := False\<rparr>)"
    and "sys_read s' 0 = Eof"
    and "fd_get (fds s') 0 = Some \<lparr>target = PipeR (length (pipes s)), cloexec = False\<rparr>"
proof -
  have lim: "3 < nofile s" "4 < nofile s" "pa0 \<noteq> 3" "pa0 \<noteq> 4" "pb0 \<noteq> 3" "pb0 \<noteq> 4"
    using assms(4,5,6) by (simp_all add: DIFF_MAXFD_def)
  from sys_dup2_succeeds [OF assms(2) lim(1)] obtain s1 where d1: "sys_dup2 s pa0 3 = Some s1" ..
  note D1 = sys_dup2_SomeD [OF d1]
  have n1: "nofile s1 = nofile s" using arg_cong [OF D1(5), of nofile] by simp
  have "fd_get (fds s1) pb0 = Some db" using D1(3) [of pb0] lim assms(3) by simp
  from sys_dup2_succeeds [OF this, of 4] lim(2) n1 obtain s2 where d2: "sys_dup2 s1 pb0 4 = Some s2"
    by auto
  note D2 = sys_dup2_SomeD [OF d2]
  let ?six = "[''--label'', cmda, ''/proc/self/fd/3'', ''--label'', cmdb, ''/proc/self/fd/4'']"
  from consumer_ExecedD [OF assms(1) d1 d2] obtain s3 s4 s5 a' h' where
    c3: "clear_cloexec s2 3 = Inr s3" and c4: "clear_cloexec s3 4 = Inr s4"
    and r: "closed_reader s4 0 = Inr s5"
    and add: "args_add_all h a ?six = Inr (a', h')"
    and dv: "c_argv h' (argv a') = Some dv"
    and x: "sys_exec s5 DIFF_CMD = Some s'" and res: "p = DIFF_CMD"
    by blast
  note C3 = clear_cloexec_InrD [OF c3]
  note C4 = clear_cloexec_InrD [OF c4]
  note R = closed_reader_InrD [OF r]
  note X = sys_exec_SomeD [OF x]
  show "p = DIFF_CMD" by (rule res)
  from args_add_all_Inr [OF assms(7) add] obtain qs where "args_holds h' a' (ps @ qs) (ss @ ?six)"
    by blast
  from args_holds_c_argv [OF this] dv show "dv = ss @ ?six" by simp
  have "can_exec s5 = can_exec s"
    using arg_cong [OF R(5), of can_exec] arg_cong [OF C3(3), of can_exec]
      arg_cong [OF C4(3), of can_exec] arg_cong [OF D1(5), of can_exec]
      arg_cong [OF D2(5), of can_exec] by simp
  with X(1) show "can_exec s DIFF_CMD" by simp
  have 3: "fd_get (fds s2) 3 = Some (da\<lparr>cloexec := False\<rparr>)"
    using D1(2) assms(2) lim D2(3) [of 3] by simp
  have 4: "fd_get (fds s2) 4 = Some (db\<lparr>cloexec := False\<rparr>)"
    using D2(2) \<open>fd_get (fds s1) pb0 = Some db\<close> lim by simp
  have "fd_get (fds s5) 3 = Some (da\<lparr>cloexec := False\<rparr>)"
    using 3 C3(1) C4(2) [of 3] R(3) [of 3] by auto
  then show "fd_get (fds s') 3 = Some (da\<lparr>cloexec := False\<rparr>)" by (simp add: X(2))
  have "fd_get (fds s5) 4 = Some (db\<lparr>cloexec := False\<rparr>)"
    using 4 C3(2) [of 4] C4(1) R(3) [of 4] by auto
  then show "fd_get (fds s') 4 = Some (db\<lparr>cloexec := False\<rparr>)" by (simp add: X(2))
  have l: "length (pipes s4) = length (pipes s)"
    using D1(4) D2(4) arg_cong [OF C3(3), of pipes] arg_cong [OF C4(3), of pipes] by simp
  show 0: "fd_get (fds s') 0 = Some \<lparr>target = PipeR (length (pipes s)), cloexec = False\<rparr>"
    using R(1) l by (simp add: X(2))
  show "sys_read s' 0 = Eof"
    using 0 X(3) [OF R(2)] l by (intro sys_read_eof) auto
qed


subsection \<open>The argument vector built by \<open>main\<close>\<close>

lemma main_forward_eq:
  "main_forward h a av i = args_add_all h a (drop i (take (length av - 2) av))"
proof (induction h a av i rule: main_forward.induct)
  case (1 h a av i)
  show ?case
  proof (cases "i < length av - 2")
    case True
    then have d: "drop i (take (length av - 2) av) = av ! i # drop (Suc i) (take (length av - 2) av)"
      by (simp add: Cons_nth_drop_Suc [symmetric])
    show ?thesis
      using True 1
      by (subst main_forward.simps) (auto simp: d split: sum.splits)
  next
    case False
    then show ?thesis
      by (subst main_forward.simps) simp
  qed
qed

lemma args_add_all_single: "args_add_all h a [x] = args_add h a x"
  by (cases "args_add h a x") auto

lemma drop_one_take: "drop 1 (take (length av - 2) av) = take (length av - 3) (tl av)"
proof -
  have "drop 1 (take (length av - 2) av) = tl (take (length av - 2) av)"
    by (simp add: drop_Suc)
  also have "\<dots> = take (length av - 2 - 1) (tl av)"
    by (rule tl_take)
  also have "length av - 2 - 1 = length av - 3" by simp
  finally show ?thesis .
qed

lemma main_flags_eq:
  assumes "\<not> length av < 3"
  shows "(if length av = 3 then args_add h a ''-u'' else main_forward h a av 1) =
         args_add_all h a (diff_flags av)"
proof (cases "length av = 3")
  case True
  have "diff_flags av = [''-u'']" using True by (simp add: diff_flags_def)
  then show ?thesis using True by (simp add: args_add_all_single del: args_add_all.simps)
next
  case False
  have "diff_flags av = drop 1 (take (length av - 2) av)"
    using False by (simp only: diff_flags_def drop_one_take if_False)
  then show ?thesis using False by (simp only: main_forward_eq if_False)
qed

lemma main_args_eq:
  "main_args h av =
     (case args_init h 2 of Inl e \<Rightarrow> Inl e
      | Inr (a, h1) \<Rightarrow>
          (case args_add h1 a DIFF_CMD of Inl e \<Rightarrow> Inl e
           | Inr (a1, h2) \<Rightarrow>
               if length av < 3 then Inl (Usage (usage_text av))
               else args_add_all h2 a1 (diff_flags av)))"
proof (cases "length av < 3")
  case True
  then show ?thesis by (simp add: main_args_def split: sum.splits prod.splits)
next
  case False
  show ?thesis
    unfolding main_args_def main_flags_eq [OF False, symmetric]
    using False by (simp split: sum.splits prod.splits)
qed

lemma main_args_InrD:
  assumes "main_args h av = Inr (a, h')"
  shows "3 \<le> length av" and "\<exists>ps. args_holds h' a ps (DIFF_CMD # diff_flags av)"
proof -
  have "3 \<le> length av \<and> (\<exists>ps. args_holds h' a ps (DIFF_CMD # diff_flags av))"
  proof (cases "args_init h 2")
    case (Inl e)
    with assms show ?thesis by (simp add: main_args_eq)
  next
    case (Inr r)
    obtain a0 h0 where r: "r = (a0, h0)" by (cases r)
    note i = Inr [unfolded r]
    show ?thesis
    proof (cases "args_add h0 a0 DIFF_CMD")
      case (Inl e)
      with assms i show ?thesis by (simp add: main_args_eq)
    next
      case (Inr r')
      obtain a1 h1 where r': "r' = (a1, h1)" by (cases r')
      note d = Inr [unfolded r']
      from assms i d have n: "\<not> length av < 3"
        by (simp add: main_args_eq split: if_splits)
      with assms i d have f: "args_add_all h1 a1 (diff_flags av) = Inr (a, h')"
        by (simp add: main_args_eq)
      from args_add_Inr(1) [OF args_holds_init [OF i] d]
      have "args_holds h1 a1 [length (blocks h0)] [DIFF_CMD]" by simp
      from args_add_all_Inr [OF this f] n show ?thesis by auto
    qed
  qed
  then show "3 \<le> length av" and "\<exists>ps. args_holds h' a ps (DIFF_CMD # diff_flags av)"
    by simp_all
qed


subsection \<open>The processes of a run\<close>

lemma main_spawn_cases:
  obtains
    (fork1) "sys_fork s = None"
      "main_spawn s h a shell cmda cmdb pa pb = only_parent (fail (Fatal ''fork'') s)"
  | (fork2) s1 ea t1 where "spawn_a s shell cmda pa s1 ea t1" "sys_fork t1 = None"
      "main_spawn s h a shell cmda cmdb pa pb =
         (only_parent (fail (Fatal ''fork'') t1))\<lparr>child_a := Some ea\<rparr>"
  | (fork3) s1 ea t1 s2 eb t2 where "spawn_a s shell cmda pa s1 ea t1"
      "spawn_a t1 shell cmdb pb s2 eb t2" "sys_fork t2 = None"
      "main_spawn s h a shell cmda cmdb pa pb =
         (only_parent (fail (Fatal ''fork'') t2))\<lparr>child_a := Some ea, child_b := Some eb\<rparr>"
  | (forked) s1 ea t1 s2 eb t2 s3 ed s4 where "spawn_a s shell cmda pa s1 ea t1"
      "spawn_a t1 shell cmdb pb s2 eb t2" "sys_fork t2 = Some s3"
      "ed = consumer s3 h a cmda cmdb (fst pa) (fst pb)"
      "s4 = sys_close (sys_close (sys_close (sys_close (s3\<lparr>pipes := pipes (snd ed)\<rparr>)
              (fst pa)) (snd pa)) (fst pb)) (snd pb)"
      "main_spawn s h a shell cmda cmdb pa pb =
         \<lparr>parent = (if sys_waitpid s4 (fst ed) then (Exited 0 [], sys_exit s4) else (Blocked, s4)),
          child_a = Some ea, child_b = Some eb, child_diff = Some ed\<rparr>"
proof (cases "sys_fork s")
  case None
  then show ?thesis by (intro fork1) (simp_all add: main_spawn_def)
next
  case f1: (Some s1)
  define ea where "ea = producer s1 shell cmda (snd pa)"
  define t1 where "t1 = s1\<lparr>pipes := pipes (snd ea)\<rparr>"
  have A: "spawn_a s shell cmda pa s1 ea t1"
    by (simp add: spawn_a_def f1 ea_def t1_def)
  show ?thesis
  proof (cases "sys_fork t1")
    case None
    then show ?thesis
      by (intro fork2 [OF A]) (simp_all add: main_spawn_def f1 Let_def ea_def [symmetric] t1_def [symmetric])
  next
    case f2: (Some s2)
    define eb where "eb = producer s2 shell cmdb (snd pb)"
    define t2 where "t2 = s2\<lparr>pipes := pipes (snd eb)\<rparr>"
    have B: "spawn_a t1 shell cmdb pb s2 eb t2"
      by (simp add: spawn_a_def f2 eb_def t2_def)
    show ?thesis
    proof (cases "sys_fork t2")
      case None
      then show ?thesis
        by (intro fork3 [OF A B])
          (simp_all add: main_spawn_def f1 f2 Let_def ea_def [symmetric] t1_def [symmetric]
            eb_def [symmetric] t2_def [symmetric])
    next
      case f3: (Some s3)
      show ?thesis
        by (rule forked [OF A B f3 refl refl])
          (simp add: main_spawn_def f1 f2 f3 Let_def ea_def [symmetric] t1_def [symmetric]
            eb_def [symmetric] t2_def [symmetric])
    qed
  qed
qed

lemma spawn_a_D:
  assumes "spawn_a s shell cmd pp s1 e t1"
  shows "fds s1 = fds s" and "nofile s1 = nofile s" and "can_exec s1 = can_exec s"
    and "fds t1 = fds s" and "nofile t1 = nofile s" and "can_exec t1 = can_exec s"
    and "halts t1 = halts s" and "e = producer s1 shell cmd (snd pp)"
  using assms sys_fork_SomeD [of s s1] by (simp_all add: spawn_a_def)

lemma main_cases:
  obtains
    (args_fail) e where "main_args h av = Inl e" "main h s env av = only_parent (fail e s)"
  | (pipes_fail) a h' e s' where "main_args h av = Inr (a, h')" "main_pipes s = Inl (e, s')"
      "main h s env av = only_parent (fail e s')"
  | (spawn) a h' pa pb s1 where "main_args h av = Inr (a, h')" "main_pipes s = Inr (pa, pb, s1)"
      "main h s env av =
         main_spawn s1 h' a (shell_of env) (av ! (length av - 2)) (av ! (length av - 1)) pa pb"
proof (cases "main_args h av")
  case (Inl e)
  then show ?thesis by (intro args_fail) (simp_all add: main_def)
next
  case (Inr r)
  obtain a h' where r: "r = (a, h')" by (cases r)
  note A = Inr [unfolded r]
  show ?thesis
  proof (cases "main_pipes s")
    case (Inl r')
    obtain e s' where r': "r' = (e, s')" by (cases r')
    from Inl [unfolded r'] show ?thesis
      by (intro pipes_fail [OF A]) (simp_all add: main_def A Let_def)
  next
    case (Inr r')
    obtain pa pb s1 where r': "r' = (pa, pb, s1)" by (cases r')
    from Inr [unfolded r'] show ?thesis
      by (intro spawn [OF A]) (simp_all add: main_def A Let_def shell_of_def)
  qed
qed

lemma only_parent_children [simp]:
  "child_a (only_parent e) = None" "child_b (only_parent e) = None"
  "child_diff (only_parent e) = None" "parent (only_parent e) = e"
  by (simp_all add: only_parent_def)

lemma main_child_diff:
  assumes "child_diff (main h s env av) = Some ed"
  obtains a h' pa pb s1 s3 where "main_args h av = Inr (a, h')" "main_pipes s = Inr (pa, pb, s1)"
    "fds s3 = fds s1" "nofile s3 = nofile s1" "can_exec s3 = can_exec s" 
    "ed = consumer s3 h' a (av ! (length av - 2)) (av ! (length av - 1)) (fst pa) (fst pb)"
proof (cases rule: main_cases [where h = h and av = av and s = s and env = env])
  case (args_fail e)
  with assms show ?thesis by simp
next
  case (pipes_fail a h' e s')
  with assms show ?thesis by simp
next
  case (spawn a h' pa pb s1)
  have c: "can_exec s1 = can_exec s"
    using arg_cong [OF main_pipes_InrD(14) [OF spawn(2)], of can_exec] by simp
  show ?thesis
  proof (cases rule: main_spawn_cases [where s = s1 and h = h' and a = a and shell = "shell_of env"
        and cmda = "av ! (length av - 2)" and cmdb = "av ! (length av - 1)" and pa = pa and pb = pb])
    case fork1
    with assms spawn(3) show ?thesis by simp
  next
    case (fork2 s1' ea t1)
    with assms spawn(3) show ?thesis by simp
  next
    case (fork3 s1' ea t1 s2 eb t2)
    with assms spawn(3) show ?thesis by simp
  next
    case (forked s1' ea t1 s2 eb t2 s3 ed' s4)
    note A = spawn_a_D [OF forked(1)]
    note B = spawn_a_D [OF forked(2)]
    note F = sys_fork_SomeD [OF forked(3)]
    from assms spawn(3) forked(6) have "ed = ed'" by simp
    with forked(4) have "ed = consumer s3 h' a (av ! (length av - 2)) (av ! (length av - 1)) (fst pa) (fst pb)"
      by simp
    moreover have "fds s3 = fds s1" "nofile s3 = nofile s1" "can_exec s3 = can_exec s"
      using A B F c by simp_all
    ultimately show ?thesis using that [OF spawn(1,2)] by blast
  qed
qed

lemma main_child_a:
  assumes "child_a (main h s env av) = Some ea"
  obtains a h' pa pb s1 s2 where "main_args h av = Inr (a, h')" "main_pipes s = Inr (pa, pb, s1)"
    "fds s2 = fds s1" "can_exec s2 = can_exec s"
    "ea = producer s2 (shell_of env) (av ! (length av - 2)) (snd pa)"
proof (cases rule: main_cases [where h = h and av = av and s = s and env = env])
  case (args_fail e)
  with assms show ?thesis by simp
next
  case (pipes_fail a h' e s')
  with assms show ?thesis by simp
next
  case (spawn a h' pa pb s1)
  have c: "can_exec s1 = can_exec s"
    using arg_cong [OF main_pipes_InrD(14) [OF spawn(2)], of can_exec] by simp
  show ?thesis
  proof (cases rule: main_spawn_cases [where s = s1 and h = h' and a = a and shell = "shell_of env"
        and cmda = "av ! (length av - 2)" and cmdb = "av ! (length av - 1)" and pa = pa and pb = pb])
    case fork1
    with assms spawn(3) show ?thesis by simp
  next
    case (fork2 s1' ea' t1)
    note A = spawn_a_D [OF fork2(1)]
    from assms spawn(3) fork2(3) have "ea = ea'" by simp
    with A c show ?thesis using that [OF spawn(1,2), of s1'] by simp
  next
    case (fork3 s1' ea' t1 s2 eb t2)
    note A = spawn_a_D [OF fork3(1)]
    from assms spawn(3) fork3(4) have "ea = ea'" by simp
    with A c show ?thesis using that [OF spawn(1,2), of s1'] by simp
  next
    case (forked s1' ea' t1 s2 eb t2 s3 ed' s4)
    note A = spawn_a_D [OF forked(1)]
    from assms spawn(3) forked(6) have "ea = ea'" by simp
    with A c show ?thesis using that [OF spawn(1,2), of s1'] by simp
  qed
qed

lemma main_child_b:
  assumes "child_b (main h s env av) = Some eb"
  obtains a h' pa pb s1 s2 where "main_args h av = Inr (a, h')" "main_pipes s = Inr (pa, pb, s1)"
    "fds s2 = fds s1" "can_exec s2 = can_exec s"
    "eb = producer s2 (shell_of env) (av ! (length av - 1)) (snd pb)"
proof (cases rule: main_cases [where h = h and av = av and s = s and env = env])
  case (args_fail e)
  with assms show ?thesis by simp
next
  case (pipes_fail a h' e s')
  with assms show ?thesis by simp
next
  case (spawn a h' pa pb s1)
  have c: "can_exec s1 = can_exec s"
    using arg_cong [OF main_pipes_InrD(14) [OF spawn(2)], of can_exec] by simp
  show ?thesis
  proof (cases rule: main_spawn_cases [where s = s1 and h = h' and a = a and shell = "shell_of env"
        and cmda = "av ! (length av - 2)" and cmdb = "av ! (length av - 1)" and pa = pa and pb = pb])
    case fork1
    with assms spawn(3) show ?thesis by simp
  next
    case (fork2 s1' ea' t1)
    with assms spawn(3) show ?thesis by simp
  next
    case (fork3 s1' ea' t1 s2 eb' t2)
    note A = spawn_a_D [OF fork3(1)]
    note B = spawn_a_D [OF fork3(2)]
    from assms spawn(3) fork3(4) have "eb = eb'" by simp
    with A B c show ?thesis using that [OF spawn(1,2), of s2] by simp
  next
    case (forked s1' ea' t1 s2 eb' t2 s3 ed' s4)
    note A = spawn_a_D [OF forked(1)]
    note B = spawn_a_D [OF forked(2)]
    from assms spawn(3) forked(6) have "eb = eb'" by simp
    with A B c show ?thesis using that [OF spawn(1,2), of s2] by simp
  qed
qed

lemma consumer_in_main:
  assumes "child_diff (main h s env av) = Some (Execed p dv, sd)"
  shows "p = DIFF_CMD" and "can_exec s DIFF_CMD" and "3 \<le> length av"
    and "dv = DIFF_CMD # diff_flags av @ six_args av"
    and "\<exists>a h'. main_args h av = Inr (a, h') \<and> c_argv h' (argv a) = Some (DIFF_CMD # diff_flags av)"
    and "fd_get (fds sd) 3 = Some \<lparr>target = PipeR (length (pipes s)), cloexec = False\<rparr>"
    and "fd_get (fds sd) 4 = Some \<lparr>target = PipeR (Suc (length (pipes s))), cloexec = False\<rparr>"
    and "sys_read sd 0 = Eof"
proof -
  from assms obtain a h' pa pb s1 s3 where
    A: "main_args h av = Inr (a, h')" and P: "main_pipes s = Inr (pa, pb, s1)"
    and s3: "fds s3 = fds s1" "nofile s3 = nofile s1" "can_exec s3 = can_exec s"
    and c: "(Execed p dv, sd) = consumer s3 h' a (av ! (length av - 2)) (av ! (length av - 1)) (fst pa) (fst pb)"
    by (rule main_child_diff)
  note PP = main_pipes_InrD [OF P]
  from main_args_InrD [OF A] obtain ps where n: "3 \<le> length av"
    and H: "args_holds h' a ps (DIFF_CMD # diff_flags av)" by blast
  note C = consumer_Execed [OF c [symmetric], where da = "\<lparr>target = PipeR (length (pipes s)), cloexec = True\<rparr>"
      and db = "\<lparr>target = PipeR (Suc (length (pipes s))), cloexec = True\<rparr>", OF _ _ _ _ _ H]
  have pre: "fd_get (fds s3) (fst pa) = Some \<lparr>target = PipeR (length (pipes s)), cloexec = True\<rparr>"
    "fd_get (fds s3) (fst pb) = Some \<lparr>target = PipeR (Suc (length (pipes s))), cloexec = True\<rparr>"
    "DIFF_MAXFD < fst pa" "DIFF_MAXFD < fst pb" "fst pa < nofile s3"
    using PP(1,3,6,8,10) s3 by simp_all
  note R = C [OF pre]
  show "p = DIFF_CMD" by (rule R(1))
  show "can_exec s DIFF_CMD" using R(3) s3 by simp
  show "3 \<le> length av" by (rule n)
  show "dv = DIFF_CMD # diff_flags av @ six_args av" using R(2) by (simp add: six_args_def)
  show "\<exists>a h'. main_args h av = Inr (a, h') \<and> c_argv h' (argv a) = Some (DIFF_CMD # diff_flags av)"
    using A args_holds_c_argv [OF H] by blast
  show "fd_get (fds sd) 3 = Some \<lparr>target = PipeR (length (pipes s)), cloexec = False\<rparr>"
    using R(4) by simp
  show "fd_get (fds sd) 4 = Some \<lparr>target = PipeR (Suc (length (pipes s))), cloexec = False\<rparr>"
    using R(5) by simp
  show "sys_read sd 0 = Eof" by (rule R(6))
qed

lemma producer_a_in_main:
  assumes "child_a (main h s env av) = Some (oa, sa)"
  shows "(\<exists>l. oa = Exited 1 l) \<or>
         oa = Execed (shell_of env) [shell_of env, ''-c'', av ! (length av - 2)] \<and>
         can_exec s (shell_of env) \<and>
         fd_get (fds sa) 1 = Some \<lparr>target = PipeW (length (pipes s)), cloexec = False\<rparr> \<and>
         sys_read sa 0 = Eof"
proof -
  from assms obtain a h' pa pb s1 s2 where
    P: "main_pipes s = Inr (pa, pb, s1)" and s2: "fds s2 = fds s1" "can_exec s2 = can_exec s"
    and e: "(oa, sa) = producer s2 (shell_of env) (av ! (length av - 2)) (snd pa)"
    by (rule main_child_a)
  note PP = main_pipes_InrD [OF P]
  from producer_ends [of s2 "shell_of env" "av ! (length av - 2)" "snd pa"] e [symmetric]
  consider l where "oa = Exited 1 l"
    | "oa = Execed (shell_of env) [shell_of env, ''-c'', av ! (length av - 2)]" by auto
  then show ?thesis
  proof cases
    case 1
    then show ?thesis by blast
  next
    case 2
    have "fd_get (fds s2) (snd pa) = Some \<lparr>target = PipeW (length (pipes s)), cloexec = True\<rparr>"
      using PP(9) s2 by simp
    from producer_Execed [OF e [symmetric, unfolded 2] this] 2 s2 show ?thesis by simp
  qed
qed

lemma producer_b_in_main:
  assumes "child_b (main h s env av) = Some (ob, sb)"
  shows "(\<exists>l. ob = Exited 1 l) \<or>
         ob = Execed (shell_of env) [shell_of env, ''-c'', av ! (length av - 1)] \<and>
         can_exec s (shell_of env) \<and>
         fd_get (fds sb) 1 = Some \<lparr>target = PipeW (Suc (length (pipes s))), cloexec = False\<rparr> \<and>
         sys_read sb 0 = Eof"
proof -
  from assms obtain a h' pa pb s1 s2 where
    P: "main_pipes s = Inr (pa, pb, s1)" and s2: "fds s2 = fds s1" "can_exec s2 = can_exec s"
    and e: "(ob, sb) = producer s2 (shell_of env) (av ! (length av - 1)) (snd pb)"
    by (rule main_child_b)
  note PP = main_pipes_InrD [OF P]
  from producer_ends [of s2 "shell_of env" "av ! (length av - 1)" "snd pb"] e [symmetric]
  consider l where "ob = Exited 1 l"
    | "ob = Execed (shell_of env) [shell_of env, ''-c'', av ! (length av - 1)]" by auto
  then show ?thesis
  proof cases
    case 1
    then show ?thesis by blast
  next
    case 2
    have "fd_get (fds s2) (snd pb) = Some \<lparr>target = PipeW (Suc (length (pipes s))), cloexec = True\<rparr>"
      using PP(11) s2 by simp
    from producer_Execed [OF e [symmetric, unfolded 2] this] 2 s2 show ?thesis by simp
  qed
qed

section \<open>An example run\<close>

text \<open>The run of \<open>main\<close> from \<open>sys0\<close>, call by call. The simplifier evaluates each call; the
  results of the calls are then put together.\<close>

lemma list_update_numeral: "(x # xs)[numeral k := y] = x # xs[pred_numeral k := y]"
  by (simp add: numeral_eq_Suc)

lemma replicate_numeral: "replicate (numeral k) x = x # replicate (pred_numeral k) x"
  by (simp add: numeral_eq_Suc)

lemmas list_eval = list_update_numeral replicate_numeral upt_rec

lemmas sys_eval = sys_pipe_def sys_close_def sys_dup2_def fcntl_dupfd_cloexec_def xdup_ge_def
  fcntl_getfd_def fcntl_setfd_def clear_cloexec_def closed_reader_def lowest_free_def
  fd_get_def fd_put_def FD_CLOEXEC_def DIFF_MAXFD_def Let_def

lemma sys_with_simps:
  "fds (sys_with t ps n) = t" "nofile (sys_with t ps n) = 16" "pipes (sys_with t ps n) = ps"
  "forks (sys_with t ps n) = n" "fork_ok (sys_with t ps n) k" "can_exec (sys_with t ps n) p"
  "halts (sys_with t ps n) p"
  "(sys_with t ps n)\<lparr>fds := t'\<rparr> = sys_with t' ps n"
  "(sys_with t ps n)\<lparr>pipes := ps'\<rparr> = sys_with t ps' n"
  "(sys_with t ps n)\<lparr>forks := n'\<rparr> = sys_with t ps n'"
  by (simp_all add: sys_with_def)

lemmas run_eval = sys_eval list_eval sys_with_simps sys_fork_def sys_exec_def sys_exit_def
  retain_all_def release_those_def tty_def table1_def

lemmas heap_eval2 = heap_eval list_eval replicate_2 heap0_def DIFF_CMD_def

lemma run_pipes: "main_pipes sys0 = Inr ((5, 6), (7, 8), sys_with table1 [pcount 1 1, pcount 1 1] 0)"
  by (simp add: sys0_def main_pipes_def main_pipe_def run_eval; simp add: eval_nat_numeral)

lemma run_fork1: "sys_fork (sys_with table1 [pcount 1 1, pcount 1 1] 0) = Some (sys_with table1 [pcount 2 2, pcount 2 2] 1)"
  by (simp add: run_eval; simp add: eval_nat_numeral)

lemma run_producer_a:
  "producer (sys_with table1 [pcount 2 2, pcount 2 2] 1) sh cmd 6 =
     (Execed sh [sh, ''-c'', cmd],
      image_a)"
  by (simp add: producer_def run_eval image_a_def; simp add: eval_nat_numeral)

lemma run_fork2:
  "sys_fork (sys_with table1 [pcount 1 2, pcount 1 1, pcount 1 0] 1) =
     Some (sys_with table1 [pcount 2 3, pcount 2 2, pcount 1 0] 2)"
  by (simp add: run_eval; simp add: eval_nat_numeral)

lemma run_producer_b:
  "producer (sys_with table1 [pcount 2 3, pcount 2 2, pcount 1 0] 2) sh cmd 8 =
     (Execed sh [sh, ''-c'', cmd],
      image_b)"
  by (simp add: producer_def run_eval image_b_def; simp add: eval_nat_numeral)

lemma run_fork3:
  "sys_fork (sys_with table1 [pcount 1 2, pcount 1 2, pcount 1 0, pcount 1 0] 2) =
     Some (sys_with table1 [pcount 2 3, pcount 2 3, pcount 1 0, pcount 1 0] 3)"
  by (simp add: run_eval; simp add: eval_nat_numeral)

lemma run_consumer:
  assumes "args_add_all h a [''--label'', ca, ''/proc/self/fd/3'',
             ''--label'', cb, ''/proc/self/fd/4''] = Inr (a', h')"
    and "c_argv h' (argv a') = Some dv"
  shows "consumer (sys_with table1 [pcount 2 3, pcount 2 3, pcount 1 0, pcount 1 0] 3) h a ca cb 5 7 =
     (Execed ''diff'' dv,
      image_diff)"
  using assms
  by (simp add: consumer_def run_eval DIFF_CMD_def image_diff_def del: args_add_all.simps; simp add: eval_nat_numeral)

lemma run_parent:
  "sys_close (sys_close (sys_close (sys_close
      (sys_with table1 [pcount 2 2, pcount 2 2, pcount 1 0, pcount 1 0, pcount 1 0] 3) 5) 6) 7) 8 =
   sys_with [None, Some tty, Some tty, None, None, None, None, None, None]
      [pcount 1 1, pcount 1 1, pcount 1 0, pcount 1 0, pcount 1 0] 3"
  by (simp add: run_eval; simp add: eval_nat_numeral)

lemma run_exit:
  "sys_exit (sys_with [None, Some tty, Some tty, None, None, None, None, None, None]
      [pcount 1 1, pcount 1 1, pcount 1 0, pcount 1 0, pcount 1 0] 3) =
   parent_end"
  by (simp add: run_eval parent_end_def; simp add: eval_nat_numeral)

lemma run_spawn:
  assumes "args_add_all h a [''--label'', ca, ''/proc/self/fd/3'',
             ''--label'', cb, ''/proc/self/fd/4''] = Inr (a', h')"
    and "c_argv h' (argv a') = Some dv"
  shows "main_spawn (sys_with table1 [pcount 1 1, pcount 1 1] 0) h a sh ca cb (5, 6) (7, 8) =
     \<lparr>parent = (Exited 0 [], parent_end),
      child_a = Some (Execed sh [sh, ''-c'', ca],
        image_a),
      child_b = Some (Execed sh [sh, ''-c'', cb],
        image_b),
      child_diff = Some (Execed ''diff'' dv,
        image_diff)\<rparr>"
  by (simp only: main_spawn_def Let_def run_fork1 run_producer_a run_fork2 run_producer_b run_fork3
      run_consumer [OF assms] run_parent run_exit sys_with_simps option.case fst_conv snd_conv
      sys_waitpid.simps if_True image_a_def image_b_def image_diff_def)

lemma run_main:
  assumes "main_args h av = Inr (a, h1)"
    and "args_add_all h1 a (six_args av) = Inr (a', h2)"
    and "c_argv h2 (argv a') = Some dv"
  shows "main h sys0 env av =
     \<lparr>parent = (Exited 0 [], parent_end),
      child_a = Some (Execed (shell_of env) [shell_of env, ''-c'', av ! (length av - 2)],
        image_a),
      child_b = Some (Execed (shell_of env) [shell_of env, ''-c'', av ! (length av - 1)],
        image_b),
      child_diff = Some (Execed ''diff'' dv,
        image_diff)\<rparr>"
  by (simp only: main_def assms(1) run_pipes Let_def shell_of_def sum.case prod.case
      run_spawn [OF assms(2) [unfolded six_args_def] assms(3)])

lemma run_args0:
  "main_args heap0 av0 =
     Inr (\<lparr>capacity = 4, argc = 2, argv = [Ptr 0, Ptr 1, Null, Ptr 3]\<rparr>,
          heap0\<lparr>reqs := 4, blocks := [''diff'', ''-u'']\<rparr>)"
  by (simp add: main_args_def heap_eval2 av0_def)

lemma run_six0:
  "args_add_all (heap0\<lparr>reqs := 4, blocks := [''diff'', ''-u'']\<rparr>)
     \<lparr>capacity = 4, argc = 2, argv = [Ptr 0, Ptr 1, Null, Ptr 3]\<rparr> (six_args av0) =
   Inr (\<lparr>capacity = 16, argc = 8,
         argv = [Ptr 0, Ptr 1, Ptr 2, Ptr 3, Ptr 4, Ptr 5, Ptr 6, Ptr 7, Null,
                 Ptr 9, Ptr 10, Ptr 11, Ptr 12, Ptr 13, Ptr 14, Ptr 15]\<rparr>,
        heap0\<lparr>reqs := 12,
          blocks := [''diff'', ''-u'', ''--label'', ''echo a'', ''/proc/self/fd/3'',
                     ''--label'', ''echo b'', ''/proc/self/fd/4'']\<rparr>)"
  by (simp add: heap_eval2 six_args_def av0_def; simp add: eval_nat_numeral)

lemma run_argv0:
  "c_argv (heap0\<lparr>reqs := 12,
          blocks := [''diff'', ''-u'', ''--label'', ''echo a'', ''/proc/self/fd/3'',
                     ''--label'', ''echo b'', ''/proc/self/fd/4'']\<rparr>)
     [Ptr 0, Ptr 1, Ptr 2, Ptr 3, Ptr 4, Ptr 5, Ptr 6, Ptr 7, Null,
      Ptr 9, Ptr 10, Ptr 11, Ptr 12, Ptr 13, Ptr 14, Ptr 15] =
   Some [''diff'', ''-u'', ''--label'', ''echo a'', ''/proc/self/fd/3'',
         ''--label'', ''echo b'', ''/proc/self/fd/4'']"
  by (simp add: heap0_def)




lemma run0:
  "main heap0 sys0 env av0 =
     \<lparr>parent = (Exited 0 [], parent_end),
      child_a = Some (Execed (shell_of env) [shell_of env, ''-c'', ''echo a''], image_a),
      child_b = Some (Execed (shell_of env) [shell_of env, ''-c'', ''echo b''], image_b),
      child_diff = Some (Execed ''diff''
        [''diff'', ''-u'', ''--label'', ''echo a'', ''/proc/self/fd/3'',
         ''--label'', ''echo b'', ''/proc/self/fd/4''], image_diff)\<rparr>"
proof -
  have "c_argv (heap0\<lparr>reqs := 12,
          blocks := [''diff'', ''-u'', ''--label'', ''echo a'', ''/proc/self/fd/3'',
                     ''--label'', ''echo b'', ''/proc/self/fd/4'']\<rparr>)
     (argv \<lparr>capacity = 16, argc = 8,
         argv = [Ptr 0, Ptr 1, Ptr 2, Ptr 3, Ptr 4, Ptr 5, Ptr 6, Ptr 7, Null,
                 Ptr 9, Ptr 10, Ptr 11, Ptr 12, Ptr 13, Ptr 14, Ptr 15]\<rparr>) =
   Some [''diff'', ''-u'', ''--label'', ''echo a'', ''/proc/self/fd/3'',
         ''--label'', ''echo b'', ''/proc/self/fd/4'']"
    using run_argv0 by simp
  from run_main [OF run_args0 run_six0 this, of env] show ?thesis
    by (simp add: av0_def)
qed


lemma shell_of_env0: "shell_of env0 = ''/bin/zsh''"
  by (simp add: shell_of_def secure_getenv_def env0_def)

lemma shell_of_env1: "shell_of env1 = ''/bin/sh''"
  by (simp add: shell_of_def secure_getenv_def env1_def DEFAULT_SHELL_def)


section \<open>The claims about the argument vector\<close>

text \<open>
  C8. \<open>args_init\<close> returns exactly when the starting capacity is above 0, the array fits
  and the allocator grants it, and then with an array of that many \<^verbatim>\<open>NULL\<close>s. Take any
  argument vector built by \<open>args_init\<close> and then any sequence \<open>ss\<close> of \<open>args_add\<close> calls.
  The array has as many slots as the capacity says, and the slot at index \<open>argc\<close> is
  inside it and holds \<^verbatim>\<open>NULL\<close>; there are as many occupied slots as strings pushed;
  slot \<open>i\<close> points to a block holding the \<open>i\<close>-th pushed string; no two occupied slots
  point to the same block, and every block was allocated after \<open>args_init\<close> was called,
  so none is shared with anything that existed before; the heap holds the old blocks and
  one copy of each pushed string; what \<^verbatim>\<open>execvp\<close> reads from the array is exactly \<open>ss\<close>.
  At the next push of a string \<open>s\<close>: the first half of \<open>args_add\<close> doubles the capacity and
  extends the array to twice its length exactly when \<open>argc + 1\<close> equals the capacity
  (failing with \<^verbatim>\<open>realloc\<close> when the doubled array does not fit or is not granted), and
  leaves the vector alone otherwise; \<open>args_add\<close> as a whole returns the vector with the
  address of the new copy at index \<open>argc\<close> and \<^verbatim>\<open>NULL\<close> after it, in the doubled array
  where it was doubled, and fails only with \<^verbatim>\<open>realloc\<close> or \<^verbatim>\<open>malloc\<close>, when
  the allocator refuses. No sequence \<open>ts\<close> of pushes after \<open>args_init\<close> stores outside the
  array or fails the assertion; its only failures are the two fatal allocations; and
  when the allocator grants every request and the sizes fit, every push of a further
  sequence \<open>ts\<close> returns.
\<close>

theorem args_null_terminated_owned_copies:
  "args_init h n =
     (if n = 0 then Inl Assertion
      else if n * PTR_SIZE \<le> PTRDIFF_MAX \<and> grant h (reqs h)
        then Inr (\<lparr>capacity = n, argc = 0, argv = replicate n Null\<rparr>, h\<lparr>reqs := Suc (reqs h)\<rparr>)
      else Inl (Fatal ''calloc'')) \<and>
   (args_init h n = Inr (a0, h0) \<and> args_add_all h0 a0 ss = Inr (a, h1) \<longrightarrow>
      length (argv a) = capacity a \<and> argc a < capacity a \<and>
      capacity a * PTR_SIZE \<le> PTRDIFF_MAX \<and>
      argv a ! argc a = Null \<and>
      argc a = length ss \<and>
      map (deref h1) (take (argc a) (argv a)) = map Some ss \<and>
      distinct (take (argc a) (argv a)) \<and>
      (\<forall>i<argc a. \<exists>p. argv a ! i = Ptr p \<and> length (blocks h) \<le> p) \<and>
      blocks h1 = blocks h @ ss \<and>
      c_argv h1 (argv a) = Some ss \<and>
      args_grow h1 a =
        (if argc a + 1 = capacity a then
           if 2 * capacity a * PTR_SIZE \<le> PTRDIFF_MAX \<and> grant h1 (reqs h1)
           then Inr (a\<lparr>capacity := 2 * capacity a,
                      argv := argv a @ map (junk h1) [capacity a..<2 * capacity a]\<rparr>,
                    h1\<lparr>reqs := Suc (reqs h1)\<rparr>)
           else Inl (Fatal ''realloc'')
         else Inr (a, h1)) \<and>
      args_add h1 a s =
        (if argc a + 1 = capacity a then
           if 2 * capacity a * PTR_SIZE \<le> PTRDIFF_MAX \<and> grant h1 (reqs h1) then
             if length s < PTRDIFF_MAX \<and> grant h1 (Suc (reqs h1))
             then Inr (\<lparr>capacity = 2 * capacity a, argc = argc a + 1,
                        argv = (argv a @ map (junk h1) [capacity a..<2 * capacity a])
                                 [argc a := Ptr (length (blocks h1)), argc a + 1 := Null]\<rparr>,
                      h1\<lparr>reqs := Suc (Suc (reqs h1)), blocks := blocks h1 @ [s]\<rparr>)
             else Inl (Fatal ''malloc'')
           else Inl (Fatal ''realloc'')
         else
           if length s < PTRDIFF_MAX \<and> grant h1 (reqs h1)
           then Inr (\<lparr>capacity = capacity a, argc = argc a + 1,
                      argv = (argv a)[argc a := Ptr (length (blocks h1)), argc a + 1 := Null]\<rparr>,
                    h1\<lparr>reqs := Suc (reqs h1), blocks := blocks h1 @ [s]\<rparr>)
           else Inl (Fatal ''malloc'')) \<and>
      args_add_all h0 a0 ts \<noteq> Inl Out_of_bounds \<and>
      args_add_all h0 a0 ts \<noteq> Inl Assertion \<and>
      (\<forall>e. args_add_all h0 a0 ts = Inl e \<longrightarrow> e = Fatal ''realloc'' \<or> e = Fatal ''malloc'') \<and>
      ((\<forall>k\<ge>reqs h1. grant h1 k) \<and> (\<forall>t\<in>set ts. length t < PTRDIFF_MAX) \<and>
       2 * PTR_SIZE * (length ss + length ts) \<le> PTRDIFF_MAX \<longrightarrow>
         (\<exists>a' h2. args_add_all h1 a ts = Inr (a', h2))))"
  (is "?I \<and> (?H \<longrightarrow> ?C)")
proof (rule conjI)
  show ?I by (rule args_init_eq)
  show "?H \<longrightarrow> ?C"
  proof (rule impI, elim conjE)
    assume init: "args_init h n = Inr (a0, h0)" and run: "args_add_all h0 a0 ss = Inr (a, h1)"
    note hi = args_holds_init [OF init]
    from args_add_all_Inr [OF hi run]
    obtain qs where qs: "args_holds h1 a qs ss" "\<forall>q\<in>set qs. length (blocks h0) \<le> q"
      and bl: "blocks h1 = blocks h0 @ ss"
      by auto
    have b0: "blocks h0 = blocks h" using args_init_Inr(3) [OF init] .
    from qs(1) have wf: "args_wf a" and tk: "take (argc a) (argv a) = map Ptr qs"
      and len: "length qs = argc a" and d: "distinct qs" and ss: "length ss = argc a"
      by (auto simp: args_holds_def)
    have "length (argv a) = capacity a" "argc a < capacity a"
      "capacity a * PTR_SIZE \<le> PTRDIFF_MAX" "argv a ! argc a = Null"
      using wf by (simp_all add: args_wf_def)
    moreover have "argc a = length ss" using ss by simp
    moreover note args_holds_deref [OF qs(1)]
    moreover have "distinct (take (argc a) (argv a))"
      unfolding tk using d by (simp add: distinct_map inj_on_def)
    moreover have "\<forall>i<argc a. \<exists>p. argv a ! i = Ptr p \<and> length (blocks h) \<le> p"
    proof (intro allI impI)
      fix i assume i: "i < argc a"
      then have "argv a ! i = take (argc a) (argv a) ! i" by simp
      also have "\<dots> = Ptr (qs ! i)" unfolding tk using i len by simp
      finally show "\<exists>p. argv a ! i = Ptr p \<and> length (blocks h) \<le> p"
        using qs(2) i len b0 by auto
    qed
    moreover have "blocks h1 = blocks h @ ss" using bl b0 by simp
    moreover note args_holds_c_argv [OF qs(1)]
    moreover note args_grow_eq [OF wf, of h1]
    moreover note args_add_eq [OF wf, of h1 s]
    moreover have "args_add_all h0 a0 ts \<noteq> Inl Out_of_bounds"
      "args_add_all h0 a0 ts \<noteq> Inl Assertion"
      "\<forall>e. args_add_all h0 a0 ts = Inl e \<longrightarrow> e = Fatal ''realloc'' \<or> e = Fatal ''malloc''"
      using args_add_all_Inl [OF hi, of ts] by auto
    moreover have "(\<forall>k\<ge>reqs h1. grant h1 k) \<and> (\<forall>t\<in>set ts. length t < PTRDIFF_MAX) \<and>
       2 * PTR_SIZE * (length ss + length ts) \<le> PTRDIFF_MAX \<longrightarrow>
         (\<exists>a' h2. args_add_all h1 a ts = Inr (a', h2))"
      using args_add_all_total [OF wf, of h1 ts] ss by simp
    ultimately show ?C by (intro conjI)
  qed
qed

theorem args_null_terminated_owned_copies_witness:
  "args_init heap0 2 = Inr (\<lparr>capacity = 2, argc = 0, argv = [Null, Null]\<rparr>, heap0\<lparr>reqs := 1\<rparr>) \<and>
   args_add_all (heap0\<lparr>reqs := 1\<rparr>) \<lparr>capacity = 2, argc = 0, argv = [Null, Null]\<rparr> [''diff'']
     = Inr (\<lparr>capacity = 2, argc = 1, argv = [Ptr 0, Null]\<rparr>, heap0\<lparr>reqs := 2, blocks := [''diff'']\<rparr>) \<and>
   c_argv (heap0\<lparr>reqs := 2, blocks := [''diff'']\<rparr>) [Ptr 0, Null] = Some [''diff''] \<and>
   args_grow (heap0\<lparr>reqs := 2, blocks := [''diff'']\<rparr>) \<lparr>capacity = 2, argc = 1, argv = [Ptr 0, Null]\<rparr>
     = Inr (\<lparr>capacity = 4, argc = 1, argv = [Ptr 0, Null, Ptr 2, Ptr 3]\<rparr>,
            heap0\<lparr>reqs := 3, blocks := [''diff'']\<rparr>) \<and>
   args_add (heap0\<lparr>reqs := 2, blocks := [''diff'']\<rparr>) \<lparr>capacity = 2, argc = 1, argv = [Ptr 0, Null]\<rparr> ''-u''
     = Inr (\<lparr>capacity = 4, argc = 2, argv = [Ptr 0, Ptr 1, Null, Ptr 3]\<rparr>,
            heap0\<lparr>reqs := 4, blocks := [''diff'', ''-u'']\<rparr>) \<and>
   (\<exists>a' h2. args_add_all (heap0\<lparr>reqs := 2, blocks := [''diff'']\<rparr>)
              \<lparr>capacity = 2, argc = 1, argv = [Ptr 0, Null]\<rparr> [''-u'', ''-L'', ''echo a''] = Inr (a', h2))"
proof -
  have e1: "args_add_all (heap0\<lparr>reqs := 1\<rparr>) \<lparr>capacity = 2, argc = 0, argv = [Null, Null]\<rparr> [''diff'']
     = Inr (\<lparr>capacity = 2, argc = 1, argv = [Ptr 0, Null]\<rparr>, heap0\<lparr>reqs := 2, blocks := [''diff'']\<rparr>)"
    using heap0_args_add by simp
  have sz: "2 * PTR_SIZE * (length [''diff''] + length [''-u'', ''-L'', ''echo a'']) \<le> PTRDIFF_MAX"
    "\<forall>t\<in>set [''-u'', ''-L'', ''echo a'']. length t < PTRDIFF_MAX"
    "(4::nat) * PTR_SIZE \<le> PTRDIFF_MAX" "length ''-u'' < PTRDIFF_MAX"
    by (simp_all add: PTR_SIZE_def PTRDIFF_MAX_def)
  have gr: "grant (heap0\<lparr>reqs := 2, blocks := [''diff'']\<rparr>) = (\<lambda>k. True)"
    "junk (heap0\<lparr>reqs := 2, blocks := [''diff'']\<rparr>) = Ptr"
    "blocks (heap0\<lparr>reqs := 2, blocks := [''diff'']\<rparr>) = [''diff'']"
    "reqs (heap0\<lparr>reqs := 2, blocks := [''diff'']\<rparr>) = 2"
    by (simp_all add: heap0_def)
  from args_null_terminated_owned_copies [where h = heap0 and n = 2
      and ?a0.0 = "\<lparr>capacity = 2, argc = 0, argv = [Null, Null]\<rparr>" and ?h0.0 = "heap0\<lparr>reqs := 1\<rparr>"
      and ss = "[''diff'']" and a = "\<lparr>capacity = 2, argc = 1, argv = [Ptr 0, Null]\<rparr>"
      and ?h1.0 = "heap0\<lparr>reqs := 2, blocks := [''diff'']\<rparr>" and s = "''-u''"
      and ts = "[''-u'', ''-L'', ''echo a'']"]
    heap0_args_init e1 sz gr
  show ?thesis
    by (simp add: upt_rec del: args_add_all.simps)
qed

text \<open>
  C10. \<open>args_init\<close> fails its assertion exactly for the starting capacity 0; when it
  returns, the capacity is the starting one, above 0, and \<open>argc\<close> is 0, below it. In every
  state that \<open>args_init\<close> and a sequence \<open>ss\<close> of \<open>args_add\<close> calls produce, \<open>argc\<close> is below
  the capacity and the array has as many slots as the capacity says. From such a state
  the next \<open>args_add\<close> neither fails the assertion nor stores outside the array: it fails
  only with \<^verbatim>\<open>realloc\<close> or \<^verbatim>\<open>malloc\<close>, and it returns exactly when the string
  fits and the allocator grants the copy, and the doubled array when \<open>argc + 1\<close> equals
  the capacity; when it returns, \<open>argc\<close> is one more and again below the capacity, which
  was doubled exactly when \<open>argc + 1\<close> was equal to it. So no sequence \<open>ts\<close> of pushes after
  \<open>args_init\<close> ends in a failed assertion or an out-of-bounds store, and with an allocator
  that grants every request and sizes that fit every sequence of pushes returns, with
  \<open>argc\<close> the number of strings pushed, below the capacity.
\<close>

theorem args_add_assertion_never_fails:
  "(args_init h n = Inl Assertion \<longleftrightarrow> n = 0) \<and>
   (args_init h n = Inr (a0, h0) \<and> args_add_all h0 a0 ss = Inr (a, h1) \<longrightarrow>
      0 < n \<and> capacity a0 = n \<and> argc a0 = 0 \<and> argc a0 < capacity a0 \<and>
      argc a < capacity a \<and> length (argv a) = capacity a \<and>
      args_add h1 a s \<noteq> Inl Assertion \<and> args_add h1 a s \<noteq> Inl Out_of_bounds \<and>
      args_add_all h0 a0 ts \<noteq> Inl Assertion \<and> args_add_all h0 a0 ts \<noteq> Inl Out_of_bounds \<and>
      (\<forall>e. args_add h1 a s = Inl e \<longrightarrow> e = Fatal ''realloc'' \<or> e = Fatal ''malloc'') \<and>
      (\<forall>e. args_add_all h0 a0 ts = Inl e \<longrightarrow> e = Fatal ''realloc'' \<or> e = Fatal ''malloc'') \<and>
      ((\<exists>a' h2. args_add h1 a s = Inr (a', h2)) \<longleftrightarrow>
         length s < PTRDIFF_MAX \<and>
         (if argc a + 1 = capacity a
          then 2 * capacity a * PTR_SIZE \<le> PTRDIFF_MAX \<and> grant h1 (reqs h1) \<and> grant h1 (Suc (reqs h1))
          else grant h1 (reqs h1))) \<and>
      (\<forall>a' h2. args_add h1 a s = Inr (a', h2) \<longrightarrow>
         argc a' = argc a + 1 \<and> argc a' < capacity a' \<and> length (argv a') = capacity a' \<and>
         capacity a' = (if argc a + 1 = capacity a then 2 * capacity a else capacity a)) \<and>
      ((\<forall>k\<ge>reqs h0. grant h0 k) \<and> (\<forall>t\<in>set ts. length t < PTRDIFF_MAX) \<and>
       2 * PTR_SIZE * length ts \<le> PTRDIFF_MAX \<longrightarrow>
         (\<exists>a' h2. args_add_all h0 a0 ts = Inr (a', h2) \<and> argc a' = length ts \<and>
                   argc a' < capacity a')))"
  (is "?I \<and> (?H \<longrightarrow> ?C)")
proof (rule conjI)
  show ?I unfolding args_init_eq by simp
  show "?H \<longrightarrow> ?C"
  proof (rule impI, elim conjE)
    assume init: "args_init h n = Inr (a0, h0)" and run: "args_add_all h0 a0 ss = Inr (a, h1)"
    note i = args_init_Inr [OF init]
    note hi = args_holds_init [OF init]
    from args_add_all_Inr [OF hi run]
    obtain qs where qs: "args_holds h1 a qs ss" by auto
    then have wf: "args_wf a" by (simp add: args_holds_def)
    note eq = args_add_eq [OF wf, of h1 s]
    have "0 < n" using init by (auto simp: args_init_def split: if_splits)
    moreover have "capacity a0 = n" "argc a0 = 0" using i by simp_all
    moreover have "argc a0 < capacity a0" using i(1) by (simp add: args_wf_def)
    moreover have "argc a < capacity a" "length (argv a) = capacity a"
      using wf by (simp_all add: args_wf_def)
    moreover have "args_add h1 a s \<noteq> Inl Assertion" "args_add h1 a s \<noteq> Inl Out_of_bounds"
      "\<forall>e. args_add h1 a s = Inl e \<longrightarrow> e = Fatal ''realloc'' \<or> e = Fatal ''malloc''"
      using args_add_Inl [OF wf, of h1 s] by auto
    moreover have "args_add_all h0 a0 ts \<noteq> Inl Assertion"
      "args_add_all h0 a0 ts \<noteq> Inl Out_of_bounds"
      "\<forall>e. args_add_all h0 a0 ts = Inl e \<longrightarrow> e = Fatal ''realloc'' \<or> e = Fatal ''malloc''"
      using args_add_all_Inl [OF hi, of ts] by auto
    moreover have "(\<exists>a' h2. args_add h1 a s = Inr (a', h2)) \<longleftrightarrow>
         length s < PTRDIFF_MAX \<and>
         (if argc a + 1 = capacity a
          then 2 * capacity a * PTR_SIZE \<le> PTRDIFF_MAX \<and> grant h1 (reqs h1) \<and> grant h1 (Suc (reqs h1))
          else grant h1 (reqs h1))"
      unfolding eq by auto
    moreover have "\<forall>a' h2. args_add h1 a s = Inr (a', h2) \<longrightarrow>
         argc a' = argc a + 1 \<and> argc a' < capacity a' \<and> length (argv a') = capacity a' \<and>
         capacity a' = (if argc a + 1 = capacity a then 2 * capacity a else capacity a)"
    proof (intro allI impI)
      fix a' h2 assume add: "args_add h1 a s = Inr (a', h2)"
      note w = args_add_wf [OF wf add]
      from args_add_Inr(3) [OF qs add] w(1,2)
      show "argc a' = argc a + 1 \<and> argc a' < capacity a' \<and> length (argv a') = capacity a' \<and>
         capacity a' = (if argc a + 1 = capacity a then 2 * capacity a else capacity a)"
        by (simp add: args_wf_def)
    qed
    moreover have "(\<forall>k\<ge>reqs h0. grant h0 k) \<and> (\<forall>t\<in>set ts. length t < PTRDIFF_MAX) \<and>
       2 * PTR_SIZE * length ts \<le> PTRDIFF_MAX \<longrightarrow>
         (\<exists>a' h2. args_add_all h0 a0 ts = Inr (a', h2) \<and> argc a' = length ts \<and>
                   argc a' < capacity a')"
    proof (intro impI, elim conjE)
      assume g: "\<forall>k\<ge>reqs h0. grant h0 k" and l: "\<forall>t\<in>set ts. length t < PTRDIFF_MAX"
        and c: "2 * PTR_SIZE * length ts \<le> PTRDIFF_MAX"
      from args_add_all_total [OF i(1) g l] c i(2)
      obtain a' h2 where r: "args_add_all h0 a0 ts = Inr (a', h2)" by auto
      from args_add_all_Inr [OF hi r] obtain ps where "args_holds h2 a' ps ts" by auto
      then have "argc a' = length ts" "argc a' < capacity a'"
        by (auto simp: args_holds_def args_wf_def)
      with r show "\<exists>a' h2. args_add_all h0 a0 ts = Inr (a', h2) \<and> argc a' = length ts \<and>
                   argc a' < capacity a'" by simp
    qed
    ultimately show ?C by (intro conjI)
  qed
qed

theorem args_add_assertion_never_fails_witness:
  "args_init heap0 2 = Inr (\<lparr>capacity = 2, argc = 0, argv = [Null, Null]\<rparr>, heap0\<lparr>reqs := 1\<rparr>) \<and>
   args_add_all (heap0\<lparr>reqs := 1\<rparr>) \<lparr>capacity = 2, argc = 0, argv = [Null, Null]\<rparr> [''diff'', ''-u'']
     = Inr (\<lparr>capacity = 4, argc = 2, argv = [Ptr 0, Ptr 1, Null, Ptr 3]\<rparr>,
            heap0\<lparr>reqs := 4, blocks := [''diff'', ''-u'']\<rparr>) \<and>
   (\<exists>a' h2. args_add (heap0\<lparr>reqs := 4, blocks := [''diff'', ''-u'']\<rparr>)
               \<lparr>capacity = 4, argc = 2, argv = [Ptr 0, Ptr 1, Null, Ptr 3]\<rparr> ''-L'' = Inr (a', h2)) \<and>
   (\<exists>a' h2. args_add_all (heap0\<lparr>reqs := 1\<rparr>) \<lparr>capacity = 2, argc = 0, argv = [Null, Null]\<rparr>
               [''diff'', ''-u'', ''-L'', ''echo a'', ''-L'', ''echo b'', ''/dev/fd/3'', ''/dev/fd/4'']
             = Inr (a', h2) \<and> argc a' = 8 \<and> argc a' < capacity a')"
proof -
  have sz: "2 * PTR_SIZE * length [''diff'', ''-u'', ''-L'', ''echo a'', ''-L'', ''echo b'', ''/dev/fd/3'', ''/dev/fd/4'']
      \<le> PTRDIFF_MAX"
    "\<forall>t\<in>set [''diff'', ''-u'', ''-L'', ''echo a'', ''-L'', ''echo b'', ''/dev/fd/3'', ''/dev/fd/4'']. length t < PTRDIFF_MAX"
    "length ''-L'' < PTRDIFF_MAX"
    by (simp_all add: PTR_SIZE_def PTRDIFF_MAX_def)
  have gr: "grant (heap0\<lparr>reqs := 4, blocks := [''diff'', ''-u'']\<rparr>) = (\<lambda>k. True)"
    "grant (heap0\<lparr>reqs := 1\<rparr>) = (\<lambda>k. True)"
    by (simp_all add: heap0_def)
  from args_add_assertion_never_fails [where h = heap0 and n = 2
      and ?a0.0 = "\<lparr>capacity = 2, argc = 0, argv = [Null, Null]\<rparr>" and ?h0.0 = "heap0\<lparr>reqs := 1\<rparr>"
      and ss = "[''diff'', ''-u'']" and a = "\<lparr>capacity = 4, argc = 2, argv = [Ptr 0, Ptr 1, Null, Ptr 3]\<rparr>"
      and ?h1.0 = "heap0\<lparr>reqs := 4, blocks := [''diff'', ''-u'']\<rparr>" and s = "''-L''"
      and ts = "[''diff'', ''-u'', ''-L'', ''echo a'', ''-L'', ''echo b'', ''/dev/fd/3'', ''/dev/fd/4'']"]
    heap0_args_init heap0_args_add_all sz gr
  show ?thesis
    by (simp del: args_add_all.simps add: eval_nat_numeral)
qed

section \<open>The claims about the descriptors and the processes\<close>

text \<open>
  C1. Whenever \<open>main_pipes\<close> returns, that is in every run that reaches the first \<^verbatim>\<open>fork\<close>,
  and whatever the descriptor table of the process was at the start: the four descriptors
  \<open>pa\<close> and \<open>pb\<close> are all above \<open>DIFF_MAXFD\<close>, which is 4, and all different; they refer to
  the read and the write end of the first and of the second pipe that \<open>main\<close> created, with
  close-on-exec on; every other descriptor number is as it was before the pipes were
  created, so the descriptors that the two \<^verbatim>\<open>pipe\<close> calls returned (the originals, which
  referred to the same pipe ends without close-on-exec) are closed again; and no \<^verbatim>\<open>fork\<close>
  has happened yet.
\<close>

theorem pipes_rehomed_above_DIFF_MAXFD:
  assumes "main_pipes s = Inr (pa, pb, s')"
  shows "DIFF_MAXFD = 4 \<and>
         DIFF_MAXFD < fst pa \<and> DIFF_MAXFD < snd pa \<and> DIFF_MAXFD < fst pb \<and> DIFF_MAXFD < snd pb \<and>
         distinct [fst pa, snd pa, fst pb, snd pb] \<and>
         fd_get (fds s') (fst pa) = Some \<lparr>target = PipeR (length (pipes s)), cloexec = True\<rparr> \<and>
         fd_get (fds s') (snd pa) = Some \<lparr>target = PipeW (length (pipes s)), cloexec = True\<rparr> \<and>
         fd_get (fds s') (fst pb) = Some \<lparr>target = PipeR (Suc (length (pipes s))), cloexec = True\<rparr> \<and>
         fd_get (fds s') (snd pb) = Some \<lparr>target = PipeW (Suc (length (pipes s))), cloexec = True\<rparr> \<and>
         (\<forall>m. m \<notin> {fst pa, snd pa, fst pb, snd pb} \<longrightarrow> fd_get (fds s') m = fd_get (fds s) m) \<and>
         (\<exists>p0 p1 s1 t q0 q1 t1.
            sys_pipe s = Some (p0, p1, s1) \<and> main_pipe s = Inr (pa, t) \<and>
            sys_pipe t = Some (q0, q1, t1) \<and> main_pipe t = Inr (pb, s') \<and>
            fd_get (fds s1) p0 = Some \<lparr>target = PipeR (length (pipes s)), cloexec = False\<rparr> \<and>
            fd_get (fds s1) p1 = Some \<lparr>target = PipeW (length (pipes s)), cloexec = False\<rparr> \<and>
            fd_get (fds t1) q0 = Some \<lparr>target = PipeR (Suc (length (pipes s))), cloexec = False\<rparr> \<and>
            fd_get (fds t1) q1 = Some \<lparr>target = PipeW (Suc (length (pipes s))), cloexec = False\<rparr> \<and>
            fd_get (fds s') p0 = None \<and> fd_get (fds s') p1 = None \<and>
            fd_get (fds s') q0 = None \<and> fd_get (fds s') q1 = None) \<and>
         forks s' = forks s"
proof -
  note R = main_pipes_InrD [OF assms]
  from assms obtain t where A: "main_pipe s = Inr (pa, t)" and B: "main_pipe t = Inr (pb, s')"
    by (auto simp: main_pipes_def split: sum.splits)
  obtain a0 a1 where pa: "pa = (a0, a1)" by (cases pa)
  obtain b0 b1 where pb: "pb = (b0, b1)" by (cases pb)
  note a = main_pipe_InrD [OF A [unfolded pa]]
  note b = main_pipe_InrD [OF B [unfolded pb]]
  from a(13) obtain p0 p1 s1 where p: "sys_pipe s = Some (p0, p1, s1)"
    and pn: "p0 \<noteq> a0" "p0 \<noteq> a1" "p1 \<noteq> a0" "p1 \<noteq> a1" by blast
  from b(13) obtain q0 q1 t1 where q: "sys_pipe t = Some (q0, q1, t1)"
    and qn: "q0 \<noteq> b0" "q0 \<noteq> b1" "q1 \<noteq> b0" "q1 \<noteq> b1" by blast
  note P = sys_pipe_SomeD [OF p]
  note Q = sys_pipe_SomeD [OF q]
  have nt: "nofile t = nofile s"
    using arg_cong [OF a(12), of nofile] by simp
  have "\<exists>t'. sys_pipe t = Some (p0, p1, t')"
  proof (rule sys_pipe_same_numbers [OF p nt])
    show "fd_get (fds t) p0 = None" "fd_get (fds t) p1 = None"
      using a(10) pn P(3,4) by simp_all
    show "fd_get (fds t) m \<noteq> None" if "fd_get (fds s) m \<noteq> None" for m
      using that a(6,7) a(10) [of m] by (cases "m = a0 \<or> m = a1") auto
  qed
  with q have same: "q0 = p0" "q1 = p1" by auto
  have q_free: "fd_get (fds s') q0 = None" "fd_get (fds s') q1 = None"
    using b(10) qn Q(3,4) by simp_all
  have p_free: "fd_get (fds s') p0 = None" "fd_get (fds s') p1 = None"
    using q_free same by simp_all
  have orig: "fd_get (fds s1) p0 = Some \<lparr>target = PipeR (length (pipes s)), cloexec = False\<rparr>"
    "fd_get (fds s1) p1 = Some \<lparr>target = PipeW (length (pipes s)), cloexec = False\<rparr>"
    using P(1) by (simp_all add: P(5) fd_get_put)
  have orig2: "fd_get (fds t1) q0 = Some \<lparr>target = PipeR (Suc (length (pipes s))), cloexec = False\<rparr>"
    "fd_get (fds t1) q1 = Some \<lparr>target = PipeW (Suc (length (pipes s))), cloexec = False\<rparr>"
    using Q(1) a(11) by (simp_all add: Q(5) fd_get_put)
  have "forks s' = forks s"
    using arg_cong [OF R(14), of forks] by simp
  moreover have "DIFF_MAXFD = 4" by (simp add: DIFF_MAXFD_def)
  moreover have "\<forall>m. m \<notin> {fst pa, snd pa, fst pb, snd pb} \<longrightarrow> fd_get (fds s') m = fd_get (fds s) m"
    using R(12) by blast
  moreover have "\<exists>p0 p1 s1 t q0 q1 t1.
            sys_pipe s = Some (p0, p1, s1) \<and> main_pipe s = Inr (pa, t) \<and>
            sys_pipe t = Some (q0, q1, t1) \<and> main_pipe t = Inr (pb, s') \<and>
            fd_get (fds s1) p0 = Some \<lparr>target = PipeR (length (pipes s)), cloexec = False\<rparr> \<and>
            fd_get (fds s1) p1 = Some \<lparr>target = PipeW (length (pipes s)), cloexec = False\<rparr> \<and>
            fd_get (fds t1) q0 = Some \<lparr>target = PipeR (Suc (length (pipes s))), cloexec = False\<rparr> \<and>
            fd_get (fds t1) q1 = Some \<lparr>target = PipeW (Suc (length (pipes s))), cloexec = False\<rparr> \<and>
            fd_get (fds s') p0 = None \<and> fd_get (fds s') p1 = None \<and>
            fd_get (fds s') q0 = None \<and> fd_get (fds s') q1 = None"
    using p A q B orig orig2 p_free q_free by blast
  ultimately show ?thesis
    using R(1-5) R(8-11) by blast
qed

theorem pipes_rehomed_above_DIFF_MAXFD_witness:
  "main_pipes sys0 = Inr ((5, 6), (7, 8), sys_with table1 [pcount 1 1, pcount 1 1] 0) \<and>
   fd_get table1 5 = rdesc 0 True \<and> fd_get table1 6 = wdesc 0 True \<and>
   fd_get table1 7 = rdesc 1 True \<and> fd_get table1 8 = wdesc 1 True \<and>
   fd_get table1 0 = None \<and> fd_get table1 3 = None \<and> fd_get table1 4 = None"
  using pipes_rehomed_above_DIFF_MAXFD [OF run_pipes] run_pipes
  by (simp add: fd_get_def table1_def)

text \<open>
  C2. When the consumer child replaces its image, the program is \<open>DIFF_CMD\<close>; descriptor 3
  refers to the read end of the first pipe and descriptor 4 to the read end of the second,
  both with close-on-exec off; a read from descriptor 0 returns end of stream; and the
  argument vector is the one \<open>main_args\<close> built, followed by \<^verbatim>\<open>--label\<close>, the first command
  string and \<^verbatim>\<open>/proc/self/fd/3\<close>, and then \<^verbatim>\<open>--label\<close>, the second command string and
  \<^verbatim>\<open>/proc/self/fd/4\<close>.
\<close>

theorem consumer_binds_3_and_4:
  assumes "child_diff (main h s env av) = Some (Execed p dv, sd)"
  shows "p = DIFF_CMD \<and>
         fd_get (fds sd) 3 = Some \<lparr>target = PipeR (length (pipes s)), cloexec = False\<rparr> \<and>
         fd_get (fds sd) 4 = Some \<lparr>target = PipeR (Suc (length (pipes s))), cloexec = False\<rparr> \<and>
         sys_read sd 0 = Eof \<and>
         (\<exists>a h' pre. main_args h av = Inr (a, h') \<and> c_argv h' (argv a) = Some pre \<and>
            dv = pre @ [''--label'', av ! (length av - 2), ''/proc/self/fd/3'',
                        ''--label'', av ! (length av - 1), ''/proc/self/fd/4''])"
  using consumer_in_main [OF assms] by (auto simp: six_args_def)

theorem consumer_binds_3_and_4_witness:
  "child_diff (main heap0 sys0 env0 av0) =
     Some (Execed ''diff'' [''diff'', ''-u'', ''--label'', ''echo a'', ''/proc/self/fd/3'',
                            ''--label'', ''echo b'', ''/proc/self/fd/4''], image_diff) \<and>
   fd_get (fds image_diff) 3 = rdesc 0 False \<and> fd_get (fds image_diff) 4 = rdesc 1 False \<and>
   sys_read image_diff 0 = Eof"
proof -
  have r: "child_diff (main heap0 sys0 env0 av0) =
     Some (Execed ''diff'' [''diff'', ''-u'', ''--label'', ''echo a'', ''/proc/self/fd/3'',
                            ''--label'', ''echo b'', ''/proc/self/fd/4''], image_diff)"
    by (simp add: run0)
  from consumer_binds_3_and_4 [OF r] r show ?thesis
    by (simp add: sys0_def sys_with_simps)
qed

text \<open>
  C3, as amended. A producer child that was started either exits with status 1 after a
  diagnostic, or replaces its image, and never goes on in \<open>main\<close>. When it replaces its
  image, the program is the interpreter and the argument vector is the interpreter,
  \<^verbatim>\<open>-c\<close> and the command string (the last but one argument for the first producer, the
  last for the second); descriptor 1 refers to the write end of its pipe with
  close-on-exec off; and a read from descriptor 0 returns end of stream. The interpreter
  is the value of \<^verbatim>\<open>SHELL\<close> when the variable is set and the process does not run in
  secure-execution mode, and \<^verbatim>\<open>/bin/sh\<close> otherwise.
\<close>

theorem producers_run_shell_c_command:
  "(child_a (main h s env av) = Some (oa, sa) \<longrightarrow>
      (\<exists>l. oa = Exited 1 l) \<or>
      oa = Execed (shell_of env) [shell_of env, ''-c'', av ! (length av - 2)] \<and>
      can_exec s (shell_of env) \<and>
      fd_get (fds sa) 1 = Some \<lparr>target = PipeW (length (pipes s)), cloexec = False\<rparr> \<and>
      sys_read sa 0 = Eof) \<and>
   (child_b (main h s env av) = Some (ob, sb) \<longrightarrow>
      (\<exists>l. ob = Exited 1 l) \<or>
      ob = Execed (shell_of env) [shell_of env, ''-c'', av ! (length av - 1)] \<and>
      can_exec s (shell_of env) \<and>
      fd_get (fds sb) 1 = Some \<lparr>target = PipeW (Suc (length (pipes s))), cloexec = False\<rparr> \<and>
      sys_read sb 0 = Eof) \<and>
   shell_of env =
     (if secure env then ''/bin/sh''
      else case vars env ''SHELL'' of None \<Rightarrow> ''/bin/sh'' | Some p \<Rightarrow> p)"
proof (intro conjI impI)
  assume "child_a (main h s env av) = Some (oa, sa)"
  then show "(\<exists>l. oa = Exited 1 l) \<or>
      oa = Execed (shell_of env) [shell_of env, ''-c'', av ! (length av - 2)] \<and>
      can_exec s (shell_of env) \<and>
      fd_get (fds sa) 1 = Some \<lparr>target = PipeW (length (pipes s)), cloexec = False\<rparr> \<and>
      sys_read sa 0 = Eof"
    by (rule producer_a_in_main)
next
  assume "child_b (main h s env av) = Some (ob, sb)"
  then show "(\<exists>l. ob = Exited 1 l) \<or>
      ob = Execed (shell_of env) [shell_of env, ''-c'', av ! (length av - 1)] \<and>
      can_exec s (shell_of env) \<and>
      fd_get (fds sb) 1 = Some \<lparr>target = PipeW (Suc (length (pipes s))), cloexec = False\<rparr> \<and>
      sys_read sb 0 = Eof"
    by (rule producer_b_in_main)
next
  show "shell_of env =
     (if secure env then ''/bin/sh''
      else case vars env ''SHELL'' of None \<Rightarrow> ''/bin/sh'' | Some p \<Rightarrow> p)"
    by (simp add: shell_of_def secure_getenv_def DEFAULT_SHELL_def split: option.splits)
qed

theorem producers_run_shell_c_command_witness:
  "child_a (main heap0 sys0 env0 av0) =
     Some (Execed ''/bin/zsh'' [''/bin/zsh'', ''-c'', ''echo a''], image_a) \<and>
   child_b (main heap0 sys0 env0 av0) =
     Some (Execed ''/bin/zsh'' [''/bin/zsh'', ''-c'', ''echo b''], image_b) \<and>
   fd_get (fds image_a) 1 = wdesc 0 False \<and> sys_read image_a 0 = Eof \<and>
   fd_get (fds image_b) 1 = wdesc 1 False \<and> sys_read image_b 0 = Eof \<and>
   vars env0 ''SHELL'' = Some ''/bin/zsh'' \<and> secure env0 = False"
proof -
  have a: "child_a (main heap0 sys0 env0 av0) =
     Some (Execed ''/bin/zsh'' [''/bin/zsh'', ''-c'', ''echo a''], image_a)"
    and b: "child_b (main heap0 sys0 env0 av0) =
     Some (Execed ''/bin/zsh'' [''/bin/zsh'', ''-c'', ''echo b''], image_b)"
    by (simp_all add: run0 shell_of_env0)
  from producers_run_shell_c_command [of heap0 sys0 env0 av0
      "Execed ''/bin/zsh'' [''/bin/zsh'', ''-c'', ''echo a'']" image_a
      "Execed ''/bin/zsh'' [''/bin/zsh'', ''-c'', ''echo b'']" image_b] a b
  show ?thesis
    by (simp add: sys0_def sys_with_simps env0_def)
qed

text \<open>
  C3 as it was stated fails in secure-execution mode: \<^verbatim>\<open>SHELL\<close> is set to \<^verbatim>\<open>/bin/zsh\<close>,
  and the first producer runs \<^verbatim>\<open>/bin/sh\<close>.
\<close>

theorem shell_ignored_in_secure_mode:
  "vars env1 ''SHELL'' = Some ''/bin/zsh'' \<and>
   child_a (main heap0 sys0 env1 av0) =
     Some (Execed ''/bin/sh'' [''/bin/sh'', ''-c'', ''echo a''], image_a) \<and>
   child_a (main heap0 sys0 env1 av0) \<noteq>
     Some (Execed ''/bin/zsh'' [''/bin/zsh'', ''-c'', ''echo a''], image_a)"
proof -
  have "vars env1 ''SHELL'' = Some ''/bin/zsh''"
    by (simp add: env1_def)
  moreover have "child_a (main heap0 sys0 env1 av0) =
     Some (Execed ''/bin/sh'' [''/bin/sh'', ''-c'', ''echo a''], image_a)"
    by (simp add: run0 shell_of_env1)
  ultimately show ?thesis by simp
qed

text \<open>
  C4, as amended. With fewer than three arguments, and when the two allocations that
  \<open>main\<close> makes before it looks at the argument count are granted (the array of
  \<open>args_init\<close> and the copy of the program name), the process writes the usage message to
  standard error and exits with status 2. When the first is refused it exits with status
  1 after the diagnostic \<^verbatim>\<open>calloc\<close>, and when the second is refused after the diagnostic
  \<^verbatim>\<open>malloc\<close>. In all three cases no child is started, no \<^verbatim>\<open>fork\<close> is attempted, no pipe
  is created and no image is replaced: the process ends in the state it started in, with
  its descriptors closed by the exit.
\<close>

theorem usage_error_exits_2:
  assumes "length av < 3"
  shows "fst (parent (main h s env av)) =
           (if \<not> grant h (reqs h) then Exited 1 ''calloc''
            else if \<not> grant h (Suc (reqs h)) then Exited 1 ''malloc''
            else Exited 2 (usage_text av)) \<and>
         snd (parent (main h s env av)) = sys_exit s \<and>
         forks (snd (parent (main h s env av))) = forks s \<and>
         length (pipes (snd (parent (main h s env av)))) = length (pipes s) \<and>
         child_a (main h s env av) = None \<and> child_b (main h s env av) = None \<and>
         child_diff (main h s env av) = None"
proof -
  have "main_args h av =
      Inl (if \<not> grant h (reqs h) then Fatal ''calloc''
           else if \<not> grant h (Suc (reqs h)) then Fatal ''malloc''
           else Usage (usage_text av))"
    using assms by (simp add: main_args_def heap_eval replicate_2 DIFF_CMD_def)
  then have "main h s env av =
      only_parent (fail (if \<not> grant h (reqs h) then Fatal ''calloc''
           else if \<not> grant h (Suc (reqs h)) then Fatal ''malloc''
           else Usage (usage_text av)) s)"
    by (simp add: main_def)
  then show ?thesis
    by (simp add: fail_def sys_exit_def)
qed

theorem usage_error_exits_2_witness:
  "length [''ediff'', ''echo a''] < 3 \<and>
   fst (parent (main heap0 sys0 env0 [''ediff'', ''echo a''])) =
     Exited 2 (''Usage: ediff [diff args] '' @ [CHR 0x27] @ ''shell command 1'' @ [CHR 0x27] @
               '' '' @ [CHR 0x27] @ ''shell command 2'' @ [CHR 0x27] @ [CHR 0x0A]) \<and>
   child_a (main heap0 sys0 env0 [''ediff'', ''echo a'']) = None \<and>
   child_b (main heap0 sys0 env0 [''ediff'', ''echo a'']) = None \<and>
   child_diff (main heap0 sys0 env0 [''ediff'', ''echo a'']) = None"
  using usage_error_exits_2 [of "[''ediff'', ''echo a'']" heap0 sys0 env0]
  by (simp add: heap0_def usage_text_def)

text \<open>
  C4 as it was stated fails when memory is short: with one argument and an allocator that
  refuses the first request, the process exits with status 1, not 2.
\<close>

theorem usage_error_out_of_memory:
  "length [''ediff''] < 3 \<and>
   fst (parent (main heap_oom sys0 env0 [''ediff''])) = Exited 1 ''calloc''"
  by (simp add: main_def main_args_def args_init_def calloc_ptrs_def alloc_def heap_oom_def
      fail_def only_parent_def)



text \<open>
  C6. With exactly three arguments, that is with the two command strings and no flag, the
  argument vector that the consumer passes to the differencing program has the single
  flag \<^verbatim>\<open>-u\<close> between the program name and the two label and path triples.
\<close>

theorem default_flag_is_u:
  assumes "child_diff (main h s env av) = Some (Execed p dv, sd)" and "length av = 3"
  shows "dv = [DIFF_CMD, ''-u'', ''--label'', av ! 1, ''/proc/self/fd/3'',
               ''--label'', av ! 2, ''/proc/self/fd/4'']"
  using consumer_in_main(4) [OF assms(1)] assms(2) by (simp add: six_args_def diff_flags_def)

theorem default_flag_is_u_witness:
  "child_diff (main heap0 sys0 env0 av0) =
     Some (Execed ''diff'' [''diff'', ''-u'', ''--label'', ''echo a'', ''/proc/self/fd/3'',
                            ''--label'', ''echo b'', ''/proc/self/fd/4''], image_diff) \<and>
   length av0 = 3 \<and> av0 ! 1 = ''echo a'' \<and> av0 ! 2 = ''echo b''"
proof -
  have r: "child_diff (main heap0 sys0 env0 av0) =
     Some (Execed ''diff'' [''diff'', ''-u'', ''--label'', ''echo a'', ''/proc/self/fd/3'',
                            ''--label'', ''echo b'', ''/proc/self/fd/4''], image_diff)"
    by (simp add: run0)
  have n: "length av0 = 3" by (simp add: av0_def)
  from default_flag_is_u [OF r n] r n show ?thesis
    by (simp add: av0_def)
qed





end
